theory Spec2Isabelle
  imports Main
begin

section \<open>The recording assistant: script, session state and event handlers\<close>

text \<open>
  A shallow embedding of the scripted recording assistant (the file whose header reads
  "Recording Assistant JavaScript - Simplified (No Script Display)"). The module-level
  variables of the script become the fields of one state record, every handler becomes a
  function from state to state, and a handler that can raise returns the raised error next
  to the state it leaves behind (the variables are global, so assignments made before the
  raise persist).

  Not modelled, because no handler reads them back: console output, the timer and the
  progress bars, fullscreen entry and exit, the download and metadata forms, and the
  canvas drawing of a capture. The page is taken to hold every element the handlers look
  up.
\<close>

subsection \<open>The script document\<close>

record script_line =
  line_text :: string
  group_with_next :: bool
  capture_mode :: bool
  action_required :: "string option"
  auto_terminate :: bool

record script_section =
  title :: string
  section_auto_terminate :: bool
  script_lines :: "script_line list"

text \<open>
  The variable \<open>scriptData\<close> is \<open>null\<close> until the fetch of the script resolves. A
  parsed document either carries a \<open>sections\<close> array or it does not. The sections it
  carries are taken to be well formed: each has its array of lines, and the flags of a
  line and of a section are booleans (an absent flag is \<open>False\<close>).
\<close>

datatype script_data = Null | NoSections | Script (sections: "script_section list")

datatype js_error = TypeError

subsection \<open>Speech, recorder and captured images\<close>

text \<open>
  The utterance handed to the speech engine, with the variables its completion callback
  closes over.
\<close>

record utterance =
  utt_text :: string
  cb_lastLineIndex :: nat
  cb_isAutoTerminate :: bool
  cb_isCaptureMode :: bool
  cb_showDocument :: bool

datatype recorder_state = RecorderRecording | RecorderInactive

record captured_image =
  img_type :: "string option"
  img_timestamp :: nat
  img_data :: string

type_synonym chunk = string

subsection \<open>The page elements the handlers write\<close>

record page =
  start_btn_disabled :: bool
  stop_btn_disabled :: bool
  video_overlay :: bool
  capture_overlay :: bool
  document_indicator :: bool
  capture_status :: bool
  capture_btn :: bool
  retake_btn :: bool
  capture_next_btn :: bool
  document_text :: "string option"

subsection \<open>The module state\<close>

text \<open>
  \<open>stream\<close> is \<open>True\<close> once the webcam stream has been acquired (the variable is
  non-null). \<open>speech\<close> is the queue of the speech engine: \<open>speakText\<close> always cancels
  before it speaks, so the queue holds at most one utterance. \<open>cancelled\<close> holds the
  utterances a \<open>cancel\<close> has removed from the queue and whose error event, which runs
  the same callback as a completion, is still to be dispatched. \<open>stops_pending\<close> counts
  the \<open>stop\<close> events the recorder still has to dispatch, one for each call of its
  \<open>stop\<close>. The other fields after \<open>dom\<close> are traces of what goes to the outside: the
  messages passed to \<open>alert\<close>, the units handed to the speech engine (section index and
  line indices) and the texts spoken for them, the number of calls of the recorder's
  \<open>stop\<close>, the blobs built by the recorder's \<open>onstop\<close> handler, and the image lists
  posted by \<open>saveCapturedImages\<close>.
\<close>

record state =
  scriptData :: script_data
  currentSectionIndex :: nat
  currentLineIndex :: nat
  isRecording :: bool
  mediaRecorder :: "recorder_state option"
  recordedChunks :: "chunk list"
  stream :: bool
  videoBlob :: "chunk list option"
  speech :: "utterance option"
  cancelled :: "utterance list"
  isAutoPlaying :: bool
  capturedImages :: "captured_image list"
  currentCaptureType :: "string option"
  dom :: page
  alerts :: "string list"
  narrated :: "(nat \<times> nat list) list"
  spoken :: "string list"
  recorder_stops :: nat
  stops_pending :: nat
  finalized :: "chunk list list"
  save_requests :: "captured_image list list"

subsection \<open>collectGroupedLines\<close>

text \<open>
  The \<open>while\<close> loop of \<open>collectGroupedLines\<close>: \<open>idx\<close> is the loop variable, \<open>acc\<close> the
  array \<open>lines\<close> built so far.
\<close>

function collect_loop :: "script_line list \<Rightarrow> nat \<Rightarrow> (script_line \<times> nat) list \<Rightarrow> (script_line \<times> nat) list" where
  "collect_loop ls idx acc =
     (if idx < length ls then
        (if group_with_next (ls ! idx)
         then collect_loop ls (idx + 1) (acc @ [(ls ! idx, idx)])
         else acc @ [(ls ! idx, idx)])
      else acc)"
  by pat_completeness auto
termination
  by (relation "measure (\<lambda>(ls, idx, acc). length ls - idx)") auto

declare collect_loop.simps [simp del]

text \<open>
  Reading \<open>scriptData.sections[currentSectionIndex].script_lines\<close> raises a TypeError when
  \<open>scriptData\<close> is null, has no \<open>sections\<close>, or the index is outside the array.
\<close>

definition collectGroupedLines :: "state \<Rightarrow> js_error + (script_line \<times> nat) list" where
  "collectGroupedLines s =
     (case scriptData s of
        Script secs \<Rightarrow>
          (if currentSectionIndex s < length secs
           then Inr (collect_loop (script_lines (secs ! currentSectionIndex s)) (currentLineIndex s) [])
           else Inl TypeError)
      | _ \<Rightarrow> Inl TypeError)"

text \<open>
  The grouping as the specification words it: from the cursor, the lines whose
  \<open>groupWithNext\<close> is true, and the first line after them, paired with their indices.
\<close>

definition group_by_spec :: "script_line list \<Rightarrow> nat \<Rightarrow> (script_line \<times> nat) list" where
  "group_by_spec ls j =
     (let n = Suc (length (takeWhile group_with_next (drop j ls)))
      in zip (take n (drop j ls)) [j ..< j + n])"

subsection \<open>Overlays, speech and the end of the recording\<close>

definition hideAllOverlays :: "state \<Rightarrow> state" where
  "hideAllOverlays s =
     s\<lparr>dom := (dom s)\<lparr>video_overlay := False, capture_overlay := False,
                         document_indicator := False, capture_status := False\<rparr>\<rparr>"

text \<open>
  \<open>text.replace(/pat/g, rep)\<close> for a pattern without metacharacters: every occurrence of
  \<open>pat\<close>, found from left to right, is replaced.
\<close>

function replaceAll :: "string \<Rightarrow> string \<Rightarrow> string \<Rightarrow> string" where
  "replaceAll pat rep txt =
     (if pat = [] \<or> txt = [] then txt
      else if take (length pat) txt = pat
      then rep @ replaceAll pat rep (drop (length pat) txt)
      else hd txt # replaceAll pat rep (tl txt))"
  by pat_completeness auto
termination
  by (relation "measure (\<lambda>(pat, rep, txt). length txt)") auto

declare replaceAll.simps [simp del]

definition substitutePlaceholders :: "string \<Rightarrow> string" where
  "substitutePlaceholders txt =
     replaceAll ''[Read address]'' ''123 Main Street, Mumbai, Maharashtra, 400001''
       (replaceAll ''[Bank/NBFC Name]'' ''our organization''
         (replaceAll ''[Bank Name]'' ''our bank''
           (replaceAll ''[Customer Name]'' ''valued customer'' txt)))"

text \<open>
  \<open>speechSynthesis.cancel()\<close>: the queued utterance leaves the queue; its error event is
  dispatched later.
\<close>

definition cancelSpeech :: "state \<Rightarrow> state" where
  "cancelSpeech s =
     (case speech s of
        None \<Rightarrow> s
      | Some u \<Rightarrow> s\<lparr>speech := None, cancelled := cancelled s @ [u]\<rparr>)"

text \<open>
  \<open>speakText\<close> cancels whatever the engine holds, substitutes the placeholders and queues
  the new utterance; \<open>onend\<close> and \<open>onerror\<close> of the utterance both run the callback.
\<close>

definition speakText :: "string \<Rightarrow> utterance \<Rightarrow> state \<Rightarrow> state" where
  "speakText txt cb s =
     (let s1 = cancelSpeech s;
          spokenText = substitutePlaceholders txt
      in s1\<lparr>speech := Some (cb\<lparr>utt_text := spokenText\<rparr>), spoken := spoken s1 @ [spokenText]\<rparr>)"

definition saveCapturedImages :: "state \<Rightarrow> state" where
  "saveCapturedImages s = s\<lparr>save_requests := save_requests s @ [capturedImages s]\<rparr>"

definition stopRecording :: "state \<Rightarrow> state" where
  "stopRecording s =
     (if mediaRecorder s \<noteq> None \<and> isRecording s then
        (let s1 = cancelSpeech (s\<lparr>isAutoPlaying := False\<rparr>);
             s2 = s1\<lparr>mediaRecorder := Some RecorderInactive,
                     recorder_stops := recorder_stops s1 + 1,
                     stops_pending := stops_pending s1 + 1,
                     isRecording := False\<rparr>;
             s3 = hideAllOverlays (s2\<lparr>dom := (dom s2)\<lparr>stop_btn_disabled := True\<rparr>\<rparr>)
         in if capturedImages s3 \<noteq> [] then saveCapturedImages s3 else s3)
      else s)"

subsection \<open>playNextLine\<close>

fun join :: "string \<Rightarrow> string list \<Rightarrow> string" where
  "join sep [] = []"
| "join sep [x] = x"
| "join sep (x # y # ys) = x @ sep @ join sep (y # ys)"

text \<open>
  The loop over the group that looks for a document to show: the triple is
  \<open>(showDocument, documentType, currentCaptureType)\<close>.
\<close>

fun scan_documents :: "(script_line \<times> nat) list \<Rightarrow> bool \<times> string option \<times> string option \<Rightarrow> bool \<times> string option \<times> string option" where
  "scan_documents [] st = st"
| "scan_documents (item # items) st =
     (if action_required (fst item) = Some ''customer_shows_pan''
      then scan_documents items (True, Some ''pan'', Some ''pan'')
      else if action_required (fst item) = Some ''customer_shows_aadhaar''
      then scan_documents items (True, Some ''aadhaar'', Some ''aadhaar'')
      else scan_documents items st)"

text \<open>
  The second half of \<open>playNextLine\<close>, from the call of \<open>collectGroupedLines\<close> to the call
  of \<open>speakText\<close>. Indexing the empty array for its last element and reading \<open>line\<close> of the
  result raises a TypeError.
\<close>

definition speakGroup :: "state \<Rightarrow> js_error option \<times> state" where
  "speakGroup s =
     (case collectGroupedLines s of
        Inl e \<Rightarrow> (Some e, s)
      | Inr groupedLines \<Rightarrow>
          (if groupedLines = [] then (Some TypeError, s)
           else
             (let section = sections (scriptData s) ! currentSectionIndex s;
                  lastLine = fst (last groupedLines);
                  lastLineIndex = snd (last groupedLines);
                  s1 = hideAllOverlays s;
                  combinedText = join ''. '' (map (\<lambda>item. line_text (fst item)) groupedLines);
                  isCaptureMode = capture_mode lastLine;
                  scan = scan_documents groupedLines (False, None, currentCaptureType s1);
                  showDocument = fst scan;
                  documentType = fst (snd scan);
                  s2 = s1\<lparr>currentCaptureType := snd (snd scan)\<rparr>;
                  s3 = (if documentType = None then s2
                        else s2\<lparr>dom := (dom s2)\<lparr>document_text := documentType\<rparr>\<rparr>);
                  isAutoTerminate = (section_auto_terminate section \<or> auto_terminate lastLine);
                  s4 = s3\<lparr>narrated := narrated s3 @ [(currentSectionIndex s, map snd groupedLines)]\<rparr>
              in (None, speakText combinedText
                          \<lparr>utt_text = [], cb_lastLineIndex = lastLineIndex,
                           cb_isAutoTerminate = isAutoTerminate,
                           cb_isCaptureMode = isCaptureMode,
                           cb_showDocument = showDocument\<rparr> s4))))"

function playNextLine :: "state \<Rightarrow> js_error option \<times> state" where
  "playNextLine s =
     (if scriptData s = Null \<or> \<not> isAutoPlaying s then (None, s)
      else if scriptData s = NoSections then (Some TypeError, s)
      else if \<not> currentSectionIndex s < length (sections (scriptData s)) then (Some TypeError, s)
      else if length (script_lines (sections (scriptData s) ! currentSectionIndex s)) \<le> currentLineIndex s
      then
        (if length (sections (scriptData s)) \<le> currentSectionIndex s + 1
         then (None, stopRecording (hideAllOverlays
                 (s\<lparr>currentSectionIndex := currentSectionIndex s + 1, currentLineIndex := 0,
                    isAutoPlaying := False\<rparr>)))
         else playNextLine (s\<lparr>currentSectionIndex := currentSectionIndex s + 1,
                               currentLineIndex := 0\<rparr>))
      else speakGroup s)"
  by pat_completeness auto
termination
  by (relation "measure (\<lambda>s. length (sections (scriptData s)) - currentSectionIndex s)") auto

declare playNextLine.simps [simp del]

text \<open>
  The callback \<open>playNextLine\<close> passes to \<open>speakText\<close>, applied when the utterance \<open>u\<close>
  completes.
\<close>

definition speakCallback :: "utterance \<Rightarrow> state \<Rightarrow> js_error option \<times> state" where
  "speakCallback u s =
     (let s1 = s\<lparr>currentLineIndex := cb_lastLineIndex u\<rparr> in
      if cb_isAutoTerminate u
      then playNextLine (s1\<lparr>currentLineIndex := currentLineIndex s1 + 1\<rparr>)
      else if cb_isCaptureMode u
      then (None, s1\<lparr>dom := (dom s1)\<lparr>
                    document_indicator := (cb_showDocument u \<or> document_indicator (dom s1)),
                    capture_overlay := True, capture_btn := True, retake_btn := False,
                    capture_next_btn := False, capture_status := False\<rparr>\<rparr>)
      else (None, s1\<lparr>dom := (dom s1)\<lparr>video_overlay := True\<rparr>\<rparr>))"

subsection \<open>The button handlers\<close>

definition handleNextQuestion :: "state \<Rightarrow> js_error option \<times> state" where
  "handleNextQuestion s =
     (if \<not> isAutoPlaying s then (None, s)
      else (let s1 = hideAllOverlays s
            in playNextLine (s1\<lparr>currentLineIndex := currentLineIndex s1 + 1\<rparr>)))"

definition handleCaptureNext :: "state \<Rightarrow> js_error option \<times> state" where
  "handleCaptureNext s =
     (if \<not> isAutoPlaying s then (None, s)
      else (let s1 = hideAllOverlays s
            in playNextLine (s1\<lparr>currentLineIndex := currentLineIndex s1 + 1\<rparr>)))"

text \<open>
  \<open>captureImage\<close> takes the clock reading and the encoded frame as parameters.
\<close>

definition captureImage :: "nat \<Rightarrow> string \<Rightarrow> state \<Rightarrow> state" where
  "captureImage now imageData s =
     s\<lparr>capturedImages := capturedImages s @
          [\<lparr>img_type = currentCaptureType s, img_timestamp = now, img_data = imageData\<rparr>],
       dom := (dom s)\<lparr>capture_status := True, capture_btn := False, retake_btn := True,
                       capture_next_btn := True\<rparr>\<rparr>"

text \<open>\<open>Array.prototype.findIndex\<close>: the index of the first match, \<open>None\<close> for \<open>-1\<close>.\<close>

fun findIndex :: "('a \<Rightarrow> bool) \<Rightarrow> 'a list \<Rightarrow> nat option" where
  "findIndex p [] = None"
| "findIndex p (x # xs) =
     (if p x then Some 0 else (case findIndex p xs of None \<Rightarrow> None | Some i \<Rightarrow> Some (Suc i)))"

text \<open>\<open>xs.splice(i, 1)\<close> on an index inside the array.\<close>

definition splice1 :: "nat \<Rightarrow> 'a list \<Rightarrow> 'a list" where
  "splice1 i xs = take i xs @ drop (Suc i) xs"

definition retakeImage :: "state \<Rightarrow> state" where
  "retakeImage s =
     (let lastIndex = findIndex (\<lambda>img. img_type img = currentCaptureType s) (capturedImages s);
          s1 = (case lastIndex of
                  None \<Rightarrow> s
                | Some i \<Rightarrow> s\<lparr>capturedImages := splice1 i (capturedImages s)\<rparr>)
      in s1\<lparr>dom := (dom s1)\<lparr>capture_status := False, capture_btn := True, retake_btn := False,
                             capture_next_btn := False\<rparr>\<rparr>)"

subsection \<open>Loading the script and starting\<close>

text \<open>
  \<open>loadScript\<close>: the argument is what the fetch and the parse deliver, \<open>None\<close> when either
  of them rejects. The rejection is caught and written to the console only.
\<close>

definition loadScript :: "script_data option \<Rightarrow> state \<Rightarrow> state" where
  "loadScript response s = (case response of None \<Rightarrow> s | Some d \<Rightarrow> s\<lparr>scriptData := d\<rparr>)"

text \<open>
  \<open>startRecording\<close>. The first argument says whether the recorder fails: its constructor
  (called with a fixed container format, without asking whether it is supported) or its
  \<open>start\<close> may raise. Whatever is raised inside the \<open>try\<close>, by the recorder or by
  \<open>playNextLine\<close>, is caught and shown by \<open>alert\<close> (the text of the error itself is the
  engine's and is left out of the message); the assignments made before stay.
\<close>

datatype recorder_failure = ConstructorThrows | StartThrows

definition startRecording :: "recorder_failure option \<Rightarrow> state \<Rightarrow> state" where
  "startRecording failure s =
     (if \<not> stream s
      then s\<lparr>alerts := alerts s @ [''Please allow webcam access first and refresh the page.'']\<rparr>
      else
        (let s1 = s\<lparr>recordedChunks := [], capturedImages := []\<rparr> in
         if failure = Some ConstructorThrows
         then s1\<lparr>alerts := alerts s1 @ [''Could not start recording: '']\<rparr>
         else if failure = Some StartThrows
         then s1\<lparr>mediaRecorder := Some RecorderInactive,
                 alerts := alerts s1 @ [''Could not start recording: '']\<rparr>
         else
           (let s2 = s1\<lparr>mediaRecorder := Some RecorderRecording, isRecording := True\<rparr>;
                s3 = s2\<lparr>dom := (dom s2)\<lparr>start_btn_disabled := True, stop_btn_disabled := False\<rparr>\<rparr>;
                s4 = s3\<lparr>isAutoPlaying := True, currentSectionIndex := 0, currentLineIndex := 0\<rparr>
            in case playNextLine s4 of
                 (None, s5) \<Rightarrow> s5
               | (Some e, s5) \<Rightarrow> s5\<lparr>alerts := alerts s5 @ [''Could not start recording: '']\<rparr>)))"

subsection \<open>Events\<close>

text \<open>
  What can happen to the page once it has loaded.
  \<^item> A click on one of the buttons wired by \<open>setupEventListeners\<close>. A button dispatches
    a click only when it is enabled and displayed: the start and the stop button are
    disabled and enabled by the handlers; the next button is shown by displaying the video
    overlay (the callback shows that overlay under the comment "Show regular Next
    button"); the capture, retake and capture-next buttons are shown by displaying the
    capture overlay and the button itself. A click on start comes in two kinds, by what
    the recorder does on it: \<open>StartClick\<close>, on which the recorder constructs and starts,
    and \<open>StartClickFailing\<close>, on which its constructor or its \<open>start\<close> raises.
  \<^item> The completion of the queued utterance (\<open>SpeechDone\<close>), and the error event of an
    utterance that was cancelled (\<open>CancelledDone\<close>, oldest first); both run the callback
    of the utterance.
  \<^item> A chunk of data from the recorder, while it records or has a \<open>stop\<close> event to
    dispatch, and that \<open>stop\<close> event, which runs the \<open>onstop\<close> handler.
  An error that escapes a handler is reported by the browser and leaves the variables as
  they are at that point.
\<close>

datatype event =
    StartClick | StartClickFailing recorder_failure | StopClick | NextClick
  | CaptureClick nat string | RetakeClick | CaptureNextClick
  | SpeechDone | CancelledDone | DataAvailable chunk | RecorderStopped

definition step :: "event \<Rightarrow> state \<Rightarrow> state" where
  "step e s =
     (case e of
        StartClick \<Rightarrow> if start_btn_disabled (dom s) then s else startRecording None s
      | StartClickFailing f \<Rightarrow>
          if start_btn_disabled (dom s) then s else startRecording (Some f) s
      | StopClick \<Rightarrow> if stop_btn_disabled (dom s) then s else stopRecording s
      | NextClick \<Rightarrow> if video_overlay (dom s) then snd (handleNextQuestion s) else s
      | CaptureClick now imageData \<Rightarrow>
          if capture_overlay (dom s) \<and> capture_btn (dom s)
          then captureImage now imageData s else s
      | RetakeClick \<Rightarrow>
          if capture_overlay (dom s) \<and> retake_btn (dom s) then retakeImage s else s
      | CaptureNextClick \<Rightarrow>
          if capture_overlay (dom s) \<and> capture_next_btn (dom s)
          then snd (handleCaptureNext s) else s
      | SpeechDone \<Rightarrow>
          (case speech s of
             None \<Rightarrow> s
           | Some u \<Rightarrow> snd (speakCallback u (s\<lparr>speech := None\<rparr>)))
      | CancelledDone \<Rightarrow>
          (case cancelled s of
             [] \<Rightarrow> s
           | u # us \<Rightarrow> snd (speakCallback u (s\<lparr>cancelled := us\<rparr>)))
      | DataAvailable c \<Rightarrow>
          if (mediaRecorder s = Some RecorderRecording \<or> 0 < stops_pending s) \<and> length c > 0
          then s\<lparr>recordedChunks := recordedChunks s @ [c]\<rparr> else s
      | RecorderStopped \<Rightarrow>
          if 0 < stops_pending s
          then s\<lparr>videoBlob := Some (recordedChunks s), stops_pending := stops_pending s - 1,
                 finalized := finalized s @ [recordedChunks s]\<rparr>
          else s)"

fun run :: "event list \<Rightarrow> state \<Rightarrow> state" where
  "run [] s = s"
| "run (e # es) s = run es (step e s)"

definition cursor :: "state \<Rightarrow> nat \<times> nat" where
  "cursor s = (currentSectionIndex s, currentLineIndex s)"


subsection \<open>The page as loaded, and scripts used as examples\<close>

text \<open>
  The module variables as their declarations initialise them, on a page where nothing is
  shown yet and the start button can be pressed.
\<close>

definition initial :: state where
  "initial =
     \<lparr>scriptData = Null, currentSectionIndex = 0, currentLineIndex = 0, isRecording = False,
      mediaRecorder = None, recordedChunks = [], stream = False, videoBlob = None,
      speech = None, cancelled = [], isAutoPlaying = False, capturedImages = [],
      currentCaptureType = None,
      dom = \<lparr>start_btn_disabled = False, stop_btn_disabled = True, video_overlay = False,
             capture_overlay = False, document_indicator = False, capture_status = False,
             capture_btn = False, retake_btn = False, capture_next_btn = False,
             document_text = None\<rparr>,
      alerts = [], narrated = [], spoken = [], recorder_stops = 0, stops_pending = 0,
      finalized = [], save_requests = []\<rparr>"

definition plain_line :: "string \<Rightarrow> script_line" where
  "plain_line t = \<lparr>line_text = t, group_with_next = False, capture_mode = False,
                   action_required = None, auto_terminate = False\<rparr>"

definition grouped_script :: script_data where
  "grouped_script =
     Script [\<lparr>title = ''Greeting'', section_auto_terminate = False,
              script_lines = [(plain_line ''Hello'')\<lparr>group_with_next := True\<rparr>,
                              plain_line ''Welcome'', plain_line ''Bye'']\<rparr>]"

definition pan_capture_line :: "string \<Rightarrow> script_line" where
  "pan_capture_line t = \<lparr>line_text = t, group_with_next = False, capture_mode = True,
                         action_required = Some ''customer_shows_pan'', auto_terminate = False\<rparr>"

definition two_captures_script :: script_data where
  "two_captures_script =
     Script [\<lparr>title = ''Documents'', section_auto_terminate = False,
              script_lines = [pan_capture_line ''Show your PAN card'',
                              pan_capture_line ''Show the PAN card again'']\<rparr>]"

definition early_terminate_script :: script_data where
  "early_terminate_script =
     Script [\<lparr>title = ''Closing'', section_auto_terminate = False,
              script_lines = [(plain_line ''Thank you'')\<lparr>auto_terminate := True\<rparr>,
                              plain_line ''One more thing'']\<rparr>]"

definition placeholder_script :: script_data where
  "placeholder_script =
     Script [\<lparr>title = ''Greeting'', section_auto_terminate = False,
              script_lines = [(plain_line ''Dear [Customer Name]'')\<lparr>group_with_next := True\<rparr>,
                              (plain_line ''welcome to [Bank Name] and [Bank/NBFC Name]'')
                                \<lparr>group_with_next := True\<rparr>,
                              plain_line ''We have [Read address] on file'',
                              plain_line ''Goodbye'']\<rparr>]"

definition ready :: "script_data \<Rightarrow> state" where
  "ready d = initial\<lparr>scriptData := d, stream := True\<rparr>"

text \<open>
  The page once its load-time tasks have settled: \<open>d\<close> is what \<open>loadScript\<close> left in
  \<open>scriptData\<close>, \<open>b\<close> says whether \<open>initializeWebcam\<close> obtained a stream.
\<close>

definition loaded :: "script_data \<Rightarrow> bool \<Rightarrow> state" where
  "loaded d b = initial\<lparr>scriptData := d, stream := b\<rparr>"

definition group_script :: "string option \<Rightarrow> script_data" where
  "group_script tag =
     Script [\<lparr>title = ''Documents'', section_auto_terminate = False,
              script_lines = [(plain_line ''Please hold up your card'')
                                \<lparr>group_with_next := True, action_required := tag\<rparr>,
                              (plain_line ''Keep it steady'')\<lparr>capture_mode := True\<rparr>]\<rparr>]"

text \<open>The lines of a group that carry one of the two document tags the code knows.\<close>

definition tagged :: "script_line \<times> nat \<Rightarrow> bool" where
  "tagged item = (action_required (fst item) = Some ''customer_shows_pan''
                  \<or> action_required (fst item) = Some ''customer_shows_aadhaar'')"

definition capture_type_of :: "script_line \<times> nat \<Rightarrow> string option" where
  "capture_type_of item =
     (if action_required (fst item) = Some ''customer_shows_pan'' then Some ''pan''
      else Some ''aadhaar'')"

subsection \<open>Notions used to state the properties of a session\<close>

text \<open>
  The position \<open>playNextLine\<close> settles on from a cursor: the cursor itself when it points at
  a line, otherwise the first line of the next section that has one; \<open>None\<close> when no line
  is left.
\<close>

function seek :: "script_section list \<Rightarrow> nat \<Rightarrow> nat \<Rightarrow> (nat \<times> nat) option" where
  "seek secs i j =
     (if \<not> i < length secs then None
      else if j < length (script_lines (secs ! i)) then Some (i, j)
      else seek secs (i + 1) 0)"
  by pat_completeness auto
termination
  by (relation "measure (\<lambda>(secs, i, j). length secs - i)") auto

declare seek.simps [simp del]

text \<open>The branch of \<open>playNextLine\<close> taken when the last section is exhausted.\<close>

definition finish :: "nat \<Rightarrow> state \<Rightarrow> state" where
  "finish n s =
     stopRecording (hideAllOverlays
       (s\<lparr>currentSectionIndex := n, currentLineIndex := 0, isAutoPlaying := False\<rparr>))"

text \<open>
  What holds of the variables in every state the loaded page can reach. Before a start
  succeeds the start button is enabled, nothing is queued or cancelled and the cursor is
  at the first line. Auto-play implies a running recording, a running recording implies a
  recording recorder, no cancelled utterance and no call of the recorder's \<open>stop\<close> so
  far; once the recording has ended there has been one such call. A queued utterance
  belongs to a unit of an existing section that ends at or after the cursor, and no
  overlay is shown while it is queued. At most one utterance is cancelled, and it ends at
  or after the cursor.
\<close>

definition page_inv :: "state \<Rightarrow> bool" where
  "page_inv s =
     ((\<not> start_btn_disabled (dom s) \<longrightarrow>
         \<not> isRecording s \<and> speech s = None \<and> cancelled s = [] \<and> cursor s = (0, 0)
         \<and> recorder_stops s = 0)
      \<and> (isAutoPlaying s \<longrightarrow> isRecording s)
      \<and> (isRecording s \<longrightarrow>
            mediaRecorder s = Some RecorderRecording \<and> cancelled s = [] \<and> recorder_stops s = 0)
      \<and> (start_btn_disabled (dom s) \<and> \<not> isRecording s \<longrightarrow> recorder_stops s = 1)
      \<and> recorder_stops s = stops_pending s + length (finalized s)
      \<and> (case speech s of
            None \<Rightarrow> True
          | Some u \<Rightarrow> isAutoPlaying s \<and> scriptData s \<noteq> Null \<and> scriptData s \<noteq> NoSections
                      \<and> currentSectionIndex s < length (sections (scriptData s))
                      \<and> currentLineIndex s \<le> cb_lastLineIndex u
                      \<and> \<not> video_overlay (dom s) \<and> \<not> capture_overlay (dom s))
      \<and> (case cancelled s of
            [] \<Rightarrow> True
          | u # us \<Rightarrow> us = [] \<and> speech s = None \<and> currentLineIndex s \<le> cb_lastLineIndex u))"

text \<open>
  The lines of a script as positions (section index, line index), in script order, and
  the positions a trace of narrated units covers.
\<close>

definition section_positions :: "script_section list \<Rightarrow> nat \<Rightarrow> (nat \<times> nat) list" where
  "section_positions secs i = map (Pair i) [0 ..< length (script_lines (secs ! i))]"

definition all_positions :: "script_section list \<Rightarrow> (nat \<times> nat) list" where
  "all_positions secs = concat (map (section_positions secs) [0 ..< length secs])"

definition positions :: "(nat \<times> nat list) list \<Rightarrow> (nat \<times> nat) list" where
  "positions us = concat (map (\<lambda>(i, js). map (Pair i) js) us)"

definition total_lines :: "script_section list \<Rightarrow> nat" where
  "total_lines secs = sum_list (map (\<lambda>sec. length (script_lines sec)) secs)"

text \<open>The positions from a cursor to the end of the script.\<close>

definition rest :: "script_section list \<Rightarrow> nat \<Rightarrow> nat \<Rightarrow> (nat \<times> nat) list" where
  "rest secs i j =
     map (Pair i) [j ..< length (script_lines (secs ! i))]
     @ concat (map (section_positions secs) [Suc i ..< length secs])"

text \<open>
  The text of a unit as the specification words it: the texts of its lines, in order,
  with the separator between them, the placeholders substituted; and what makes a
  narrated unit a group of its section.
\<close>

definition unit_text_by_spec :: "string list \<Rightarrow> string" where
  "unit_text_by_spec ts =
     (case ts of [] \<Rightarrow> [] | t # others \<Rightarrow> t @ concat (map (\<lambda>x. ''. '' @ x) others))"

definition spoken_text :: "script_section list \<Rightarrow> nat \<times> nat list \<Rightarrow> string" where
  "spoken_text secs u =
     substitutePlaceholders
       (unit_text_by_spec (map (\<lambda>j. line_text (script_lines (secs ! fst u) ! j)) (snd u)))"

definition is_group :: "script_section list \<Rightarrow> nat \<times> nat list \<Rightarrow> bool" where
  "is_group secs u =
     (snd u \<noteq> []
      \<and> snd u = map snd (group_by_spec (script_lines (secs ! fst u)) (hd (snd u))))"

definition no_auto_terminate :: "script_section list \<Rightarrow> bool" where
  "no_auto_terminate secs =
     (\<forall>sec\<in>set secs. \<not> section_auto_terminate sec
        \<and> (\<forall>l\<in>set (script_lines sec). \<not> auto_terminate l))"

text \<open>
  A session left to run with a user who follows it: the queued utterance completes, then
  the user presses the button that is shown, the next button of the video overlay, or,
  on the capture overlay, first the capture button and then the capture-next button (the
  clock reading and the frame of the capture play no part in what is narrated). \<open>n\<close>
  bounds the number of events; the run stops by itself when nothing is queued and no
  button is shown.
\<close>

fun cooperate :: "nat \<Rightarrow> state \<Rightarrow> state" where
  "cooperate 0 s = s"
| "cooperate (Suc n) s =
     (if speech s \<noteq> None then cooperate n (step SpeechDone s)
      else if video_overlay (dom s) then cooperate n (step NextClick s)
      else if capture_overlay (dom s) \<and> capture_btn (dom s)
      then cooperate n (step (CaptureClick 0 []) s)
      else if capture_overlay (dom s) \<and> capture_next_btn (dom s)
      then cooperate n (step CaptureNextClick s)
      else s)"

declare cooperate.simps [simp del]

definition two_sections_script :: "script_section list" where
  "two_sections_script =
     [\<lparr>title = ''Greeting'', section_auto_terminate = False,
       script_lines = [(plain_line ''Hello [Customer Name]'')\<lparr>group_with_next := True\<rparr>,
                       plain_line ''Welcome to [Bank Name]'', plain_line ''Your name please'']\<rparr>,
      \<lparr>title = ''Nothing'', section_auto_terminate = False, script_lines = []\<rparr>,
      \<lparr>title = ''Documents'', section_auto_terminate = False,
       script_lines = [pan_capture_line ''Show your PAN card'', plain_line ''Thank you'']\<rparr>]"

section \<open>Grouping\<close>

lemma collect_loop_acc: "collect_loop ls idx acc = acc @ collect_loop ls idx []"
proof (induction "length ls - idx" arbitrary: idx acc)
  case 0
  then show ?case
    by (subst collect_loop.simps, subst (2) collect_loop.simps) simp
next
  case (Suc n)
  show ?case
  proof (cases "idx < length ls \<and> group_with_next (ls ! idx)")
    case True
    have step: "n = length ls - (idx + 1)"
      using Suc.hyps(2) by simp
    have "collect_loop ls idx acc = collect_loop ls (idx + 1) (acc @ [(ls ! idx, idx)])"
      using True by (subst collect_loop.simps) simp
    also have "\<dots> = (acc @ [(ls ! idx, idx)]) @ collect_loop ls (idx + 1) []"
      by (rule Suc.hyps(1) [OF step])
    also have "\<dots> = acc @ collect_loop ls (idx + 1) [(ls ! idx, idx)]"
      using Suc.hyps(1) [OF step, of "[(ls ! idx, idx)]"] by simp
    also have "\<dots> = acc @ collect_loop ls idx []"
      using True by (subst (2) collect_loop.simps) simp
    finally show ?thesis .
  next
    case False
    then show ?thesis
      by (subst collect_loop.simps, subst (2) collect_loop.simps) auto
  qed
qed

lemma collect_loop_unfold:
  "collect_loop ls idx [] =
     (if idx < length ls then
        (ls ! idx, idx) # (if group_with_next (ls ! idx) then collect_loop ls (idx + 1) [] else [])
      else [])"
  by (subst collect_loop.simps, subst collect_loop_acc) simp

lemma zip_upt_shift: "j < m \<Longrightarrow> zip (x # xs) [j ..< m] = (x, j) # zip xs [Suc j ..< m]"
  by (simp add: upt_conv_Cons del: upt_Suc)

lemma group_by_spec_unfold:
  assumes "idx < length ls"
  shows "group_by_spec ls idx =
     (ls ! idx, idx) # (if group_with_next (ls ! idx) \<and> Suc idx < length ls
                        then group_by_spec ls (Suc idx) else [])"
proof -
  have d: "drop idx ls = ls ! idx # drop (Suc idx) ls"
    using assms by (simp add: Cons_nth_drop_Suc)
  show ?thesis
  proof (cases "group_with_next (ls ! idx)")
    case True
    show ?thesis
    proof (cases "Suc idx < length ls")
      case True
      then show ?thesis using \<open>group_with_next (ls ! idx)\<close>
        unfolding group_by_spec_def Let_def d
        by (simp del: upt_Suc add: zip_upt_shift)
    next
      case False
      then have "drop (Suc idx) ls = []" by simp
      then show ?thesis using False
        unfolding group_by_spec_def Let_def d
        by (simp del: upt_Suc add: zip_upt_shift)
    qed
  next
    case False
    then show ?thesis
      unfolding group_by_spec_def Let_def d
      by (simp del: upt_Suc add: zip_upt_shift)
  qed
qed

lemma collect_loop_spec: "idx < length ls \<Longrightarrow> collect_loop ls idx [] = group_by_spec ls idx"
proof (induction "length ls - idx" arbitrary: idx)
  case 0
  then show ?case by simp
next
  case (Suc n)
  show ?case
  proof (cases "group_with_next (ls ! idx) \<and> Suc idx < length ls")
    case True
    have "n = length ls - Suc idx" using Suc.hyps(2) by simp
    then have "collect_loop ls (Suc idx) [] = group_by_spec ls (Suc idx)"
      using Suc.hyps(1) True by blast
    then show ?thesis
      using True Suc.prems
      by (subst collect_loop_unfold, subst group_by_spec_unfold) simp_all
  next
    case False
    have "collect_loop ls (Suc idx) [] = []" if "\<not> Suc idx < length ls"
      using that by (subst collect_loop_unfold) simp
    then show ?thesis
      using False Suc.prems
      by (subst collect_loop_unfold, subst group_by_spec_unfold) auto
  qed
qed

lemma group_by_spec_length:
  "j < length ls \<Longrightarrow> length (group_by_spec ls j) = min (Suc (length (takeWhile group_with_next (drop j ls)))) (length ls - j)"
  by (auto simp: group_by_spec_def Let_def)

lemma group_by_spec_snd: "map snd (group_by_spec ls j) = [j ..< j + length (group_by_spec ls j)]"
  unfolding group_by_spec_def Let_def
  by (simp add: map_snd_zip_take take_upt min_def del: upt_Suc) 

lemma group_by_spec_fst: "map fst (group_by_spec ls j) = take (length (group_by_spec ls j)) (drop j ls)"
  unfolding group_by_spec_def Let_def
  by (simp add: map_fst_zip_take min_def)

lemma group_by_spec_inner:
  assumes "Suc k < length (group_by_spec ls j)"
  shows "group_with_next (ls ! (j + k))"
proof -
  have "k < length (takeWhile group_with_next (drop j ls))"
    using assms by (simp add: group_by_spec_def Let_def)
  then have "group_with_next (takeWhile group_with_next (drop j ls) ! k)"
    using nth_mem set_takeWhileD by metis
  moreover have "takeWhile group_with_next (drop j ls) ! k = drop j ls ! k"
    using \<open>k < length (takeWhile group_with_next (drop j ls))\<close> by (rule takeWhile_nth)
  moreover have "j + k < length ls"
    using \<open>k < length (takeWhile group_with_next (drop j ls))\<close> length_takeWhile_le [of group_with_next "drop j ls"]
    by simp
  ultimately show ?thesis by simp
qed

lemma group_by_spec_stop:
  assumes "j + length (group_by_spec ls j) < length ls"
  shows "\<not> group_with_next (ls ! (j + length (group_by_spec ls j) - 1))"
proof -
  let ?n = "length (takeWhile group_with_next (drop j ls))"
  have len: "length (group_by_spec ls j) = Suc ?n"
    using assms by (auto simp: group_by_spec_def Let_def min_def split: if_splits)
  have "?n < length (drop j ls)" using assms len by simp
  then have "\<not> group_with_next (drop j ls ! ?n)"
    by (rule nth_length_takeWhile)
  then show ?thesis using len assms by simp
qed

text \<open>
  Claim C6. For a cursor inside an existing section, \<open>collectGroupedLines\<close> returns (the
  loop is a total function): it yields the group the specification describes, which is
  not empty, carries the consecutive indices from the cursor on (so no line is taken
  twice) together with exactly the lines at these indices, ends inside the section, has
  \<open>group_with_next\<close> set on every line but its last, and stops before the end of the
  section only at a line whose \<open>group_with_next\<close> is not set.
\<close>

theorem collectGroupedLines_group:
  assumes "scriptData s = Script secs"
    and "currentSectionIndex s < length secs"
    and "currentLineIndex s < length (script_lines (secs ! currentSectionIndex s))"
  shows "\<exists>g. collectGroupedLines s = Inr g
           \<and> g = group_by_spec (script_lines (secs ! currentSectionIndex s)) (currentLineIndex s)
           \<and> g \<noteq> []
           \<and> map snd g = [currentLineIndex s ..< currentLineIndex s + length g]
           \<and> map fst g = take (length g)
                 (drop (currentLineIndex s) (script_lines (secs ! currentSectionIndex s)))
           \<and> currentLineIndex s + length g \<le> length (script_lines (secs ! currentSectionIndex s))
           \<and> (\<forall>k. Suc k < length g \<longrightarrow>
                 group_with_next (script_lines (secs ! currentSectionIndex s) ! (currentLineIndex s + k)))
           \<and> (currentLineIndex s + length g < length (script_lines (secs ! currentSectionIndex s)) \<longrightarrow>
                 \<not> group_with_next (script_lines (secs ! currentSectionIndex s)
                                       ! (currentLineIndex s + length g - 1)))"
proof -
  let ?ls = "script_lines (secs ! currentSectionIndex s)"
  let ?j = "currentLineIndex s"
  let ?g = "group_by_spec ?ls ?j"
  have run: "collectGroupedLines s = Inr ?g"
    using assms by (simp add: collectGroupedLines_def collect_loop_spec)
  have ne: "?g \<noteq> []"
    using assms(3) by (subst group_by_spec_unfold) simp_all
  have bound: "?j + length ?g \<le> length ?ls"
    using assms(3) by (simp add: group_by_spec_length)
  show ?thesis
    using run ne bound group_by_spec_snd [of ?ls ?j] group_by_spec_fst [of ?ls ?j]
      group_by_spec_inner [of _ ?ls ?j] group_by_spec_stop [of ?j ?ls]
    by blast
qed

theorem collectGroupedLines_group_witness:
  "scriptData (initial\<lparr>scriptData := grouped_script\<rparr>) = grouped_script
   \<and> currentSectionIndex (initial\<lparr>scriptData := grouped_script\<rparr>) < length (sections grouped_script)
   \<and> collectGroupedLines (initial\<lparr>scriptData := grouped_script\<rparr>) =
       Inr [((plain_line ''Hello'')\<lparr>group_with_next := True\<rparr>, 0), (plain_line ''Welcome'', 1)]"
  using collectGroupedLines_group [of "initial\<lparr>scriptData := grouped_script\<rparr>" "sections grouped_script"]
  by (simp add: initial_def grouped_script_def plain_line_def group_by_spec_def)

section \<open>Signals outside a running session\<close>

text \<open>
  Claim C10. When \<open>isAutoPlaying\<close> is false (before a start, after a stop, after the script
  is exhausted), the handlers of the two "next" buttons return at once: the whole state,
  and so the cursor, the speech queue and the trace of narrated units, is unchanged.
\<close>

theorem next_signals_ignored_when_not_auto_playing:
  "\<not> isAutoPlaying s \<Longrightarrow>
     handleNextQuestion s = (None, s) \<and> handleCaptureNext s = (None, s)
     \<and> step NextClick s = s \<and> step CaptureNextClick s = s
     \<and> cursor (step NextClick s) = cursor s \<and> cursor (step CaptureNextClick s) = cursor s
     \<and> narrated (step NextClick s) = narrated s \<and> narrated (step CaptureNextClick s) = narrated s
     \<and> speech (step NextClick s) = speech s \<and> speech (step CaptureNextClick s) = speech s"
  by (simp add: handleNextQuestion_def handleCaptureNext_def step_def)

theorem next_signals_ignored_when_not_auto_playing_witness:
  "\<not> isAutoPlaying (run [StartClick, StopClick] (ready grouped_script))
   \<and> step NextClick (run [StartClick, StopClick] (ready grouped_script))
       = run [StartClick, StopClick] (ready grouped_script)
   \<and> step CaptureNextClick (run [StartClick, StopClick] (ready grouped_script))
       = run [StartClick, StopClick] (ready grouped_script)"
proof -
  have h: "\<not> isAutoPlaying (run [StartClick, StopClick] (ready grouped_script))"
    by code_simp
  show ?thesis
    using h next_signals_ignored_when_not_auto_playing [OF h] by simp
qed

section \<open>Capture and retake\<close>

text \<open>
  Claim C4. \<open>retakeImage\<close> looks for the image to drop with \<open>findIndex\<close>, which returns
  the first image of the active type, while its comment announces the last one. With a
  confirmed image of the same type already in the list, a capture followed by a retake
  drops the confirmed image and keeps the new one. The session below reaches that list:
  two capture lines with the same document tag, the first image confirmed.
\<close>

theorem retake_after_capture_drops_confirmed_image:
  "capturedImages (run [StartClick, SpeechDone, CaptureClick 1 ''A'', CaptureNextClick, SpeechDone]
                     (ready two_captures_script))
     = [\<lparr>img_type = Some ''pan'', img_timestamp = 1, img_data = ''A''\<rparr>]
   \<and> capturedImages (run [StartClick, SpeechDone, CaptureClick 1 ''A'', CaptureNextClick, SpeechDone,
                          CaptureClick 2 ''B'', RetakeClick]
                     (ready two_captures_script))
     = [\<lparr>img_type = Some ''pan'', img_timestamp = 2, img_data = ''B''\<rparr>]"
  by code_simp

section \<open>Auto-terminate\<close>

text \<open>
  Claim C1. The completion callback of an auto-terminate unit moves the cursor past the
  unit and calls \<open>playNextLine\<close>, which ends the session only when no line is left. With
  a line after the flagged one, the session goes on: after the flagged unit completes,
  the next line is being narrated and the recording runs.
\<close>

theorem auto_terminate_line_followed_by_line_continues:
  "isAutoPlaying (run [StartClick, SpeechDone] (ready early_terminate_script))
   \<and> isRecording (run [StartClick, SpeechDone] (ready early_terminate_script))
   \<and> recorder_stops (run [StartClick, SpeechDone] (ready early_terminate_script)) = 0
   \<and> narrated (run [StartClick, SpeechDone] (ready early_terminate_script)) = [(0, [0]), (0, [1])]
   \<and> speech (run [StartClick, SpeechDone] (ready early_terminate_script))
       = Some \<lparr>utt_text = ''One more thing'', cb_lastLineIndex = 1, cb_isAutoTerminate = False,
               cb_isCaptureMode = False, cb_showDocument = False\<rparr>"
  by code_simp

section \<open>A failed load of the script\<close>

text \<open>
  Claim C2, as stated, fails: after a failed load on a page with a webcam stream, a click
  on start starts the recorder, and no message has been shown.
\<close>

theorem failed_load_then_start_records:
  "isRecording (run [StartClick] (loadScript None (initial\<lparr>stream := True\<rparr>)))
   \<and> mediaRecorder (run [StartClick] (loadScript None (initial\<lparr>stream := True\<rparr>)))
       = Some RecorderRecording
   \<and> alerts (run [StartClick] (loadScript None (initial\<lparr>stream := True\<rparr>))) = []"
  by code_simp

text \<open>
  Claim C2, amended. A failed load changes nothing and shows nothing (it is written to the
  console only), and it does not keep a session from starting: with \<open>scriptData\<close> still
  null, a start on a page with a webcam stream, on which the recorder constructs and
  starts, sets the recorder recording and opens the session. No message is shown, nothing
  is narrated and the cursor is at the first line.
\<close>

theorem failed_load_does_not_block_start:
  "loadScript None s = s
   \<and> (scriptData s = Null \<and> stream s \<longrightarrow>
        isRecording (startRecording None s)
        \<and> mediaRecorder (startRecording None s) = Some RecorderRecording
        \<and> isAutoPlaying (startRecording None s)
        \<and> alerts (startRecording None s) = alerts s
        \<and> speech (startRecording None s) = speech s
        \<and> narrated (startRecording None s) = narrated s
        \<and> spoken (startRecording None s) = spoken s
        \<and> cursor (startRecording None s) = (0, 0))"
  by (simp add: loadScript_def startRecording_def playNextLine.simps cursor_def)

theorem failed_load_does_not_block_start_witness:
  "loadScript None (loaded Null True) = loaded Null True
   \<and> scriptData (loaded Null True) = Null \<and> stream (loaded Null True)
   \<and> isRecording (startRecording None (loaded Null True))
   \<and> mediaRecorder (startRecording None (loaded Null True)) = Some RecorderRecording
   \<and> alerts (startRecording None (loaded Null True)) = []
   \<and> narrated (startRecording None (loaded Null True)) = []
   \<and> \<not> isRecording (startRecording (Some ConstructorThrows) (loaded Null True))
   \<and> mediaRecorder (startRecording (Some ConstructorThrows) (loaded Null True)) = None
   \<and> alerts (startRecording (Some ConstructorThrows) (loaded Null True))
       = [''Could not start recording: '']
   \<and> \<not> isRecording (startRecording (Some StartThrows) (loaded Null True))
   \<and> mediaRecorder (startRecording (Some StartThrows) (loaded Null True)) = Some RecorderInactive
   \<and> alerts (startRecording None (loaded Null False))
       = [''Please allow webcam access first and refresh the page.'']"
proof -
  have other: "\<not> isRecording (startRecording (Some ConstructorThrows) (loaded Null True))"
    "mediaRecorder (startRecording (Some ConstructorThrows) (loaded Null True)) = None"
    "alerts (startRecording (Some ConstructorThrows) (loaded Null True))
       = [''Could not start recording: '']"
    "\<not> isRecording (startRecording (Some StartThrows) (loaded Null True))"
    "mediaRecorder (startRecording (Some StartThrows) (loaded Null True)) = Some RecorderInactive"
    "alerts (startRecording None (loaded Null False))
       = [''Please allow webcam access first and refresh the page.'']"
    by code_simp+
  show ?thesis
    using other failed_load_does_not_block_start [of "loaded Null True"]
    by (simp add: loaded_def initial_def)
qed

section \<open>The flags of a narration unit\<close>

lemma playNextLine_speak:
  assumes "isAutoPlaying s" and "scriptData s = Script secs"
    and "currentSectionIndex s < length secs"
    and "currentLineIndex s < length (script_lines (secs ! currentSectionIndex s))"
  shows "playNextLine s = speakGroup s"
  using assms by (subst playNextLine.simps) simp

lemma scan_documents_show:
  "fst (scan_documents g st) = (fst st \<or> (\<exists>item\<in>set g. tagged item))"
  by (induction g arbitrary: st) (auto simp: tagged_def)

lemma scan_documents_type:
  "snd (snd (scan_documents g st)) =
     (if filter tagged g = [] then snd (snd st) else capture_type_of (last (filter tagged g)))"
  by (induction g arbitrary: st) (auto simp: tagged_def capture_type_of_def)

lemma speakGroup_result:
  assumes "collectGroupedLines s = Inr g" and "g \<noteq> []"
  shows "\<exists>s'. speakGroup s = (None, s')
     \<and> speech s' = Some \<lparr>utt_text = substitutePlaceholders
                                  (join ''. '' (map (\<lambda>item. line_text (fst item)) g)),
          cb_lastLineIndex = snd (last g),
          cb_isAutoTerminate = (section_auto_terminate (sections (scriptData s) ! currentSectionIndex s)
                                \<or> auto_terminate (fst (last g))),
          cb_isCaptureMode = capture_mode (fst (last g)),
          cb_showDocument = fst (scan_documents g (False, None, currentCaptureType s))\<rparr>
     \<and> currentCaptureType s' = snd (snd (scan_documents g (False, None, currentCaptureType s)))
     \<and> narrated s' = narrated s @ [(currentSectionIndex s, map snd g)]
     \<and> cursor s' = cursor s \<and> isAutoPlaying s' = isAutoPlaying s"
  using assms
  by (simp add: speakGroup_def Let_def speakText_def cancelSpeech_def hideAllOverlays_def
      cursor_def split: option.split)

text \<open>
  Claim C3, as stated, fails for the document tag: two scripts that differ only in the
  \<open>action_required\<close> of the first line of a two-line group, the last line carrying no tag
  in both, end their unit differently. With the tag on the first line the capture type is
  set and the document indicator is shown, without it neither happens.
\<close>

theorem earlier_line_tag_changes_unit:
  "map_option cb_showDocument (speech (run [StartClick] (ready (group_script (Some ''customer_shows_pan'')))))
     = Some True
   \<and> map_option cb_showDocument (speech (run [StartClick] (ready (group_script None)))) = Some False
   \<and> currentCaptureType (run [StartClick] (ready (group_script (Some ''customer_shows_pan'')))) = Some ''pan''
   \<and> currentCaptureType (run [StartClick] (ready (group_script None))) = None
   \<and> document_indicator (dom (run [StartClick, SpeechDone] (ready (group_script (Some ''customer_shows_pan'')))))
   \<and> \<not> document_indicator (dom (run [StartClick, SpeechDone] (ready (group_script None))))"
  by code_simp

text \<open>
  Claim C3, amended. When \<open>playNextLine\<close> speaks a unit, the callback's capture mode and
  last line index come from the last line of the group, its auto-terminate flag from the
  last line or from the section; the document flag is set when any line of the group
  carries one of the two known tags, and the capture type becomes the one of the last
  such line (it keeps its value when no line is tagged).
\<close>

theorem playNextLine_unit_flags:
  assumes "isAutoPlaying s" and "scriptData s = Script secs"
    and "currentSectionIndex s < length secs"
    and "currentLineIndex s < length (script_lines (secs ! currentSectionIndex s))"
  shows "\<exists>g u s'. g = group_by_spec (script_lines (secs ! currentSectionIndex s)) (currentLineIndex s)
     \<and> playNextLine s = (None, s') \<and> speech s' = Some u
     \<and> cb_isCaptureMode u = capture_mode (fst (last g))
     \<and> cb_lastLineIndex u = snd (last g)
     \<and> cb_isAutoTerminate u =
         (section_auto_terminate (secs ! currentSectionIndex s) \<or> auto_terminate (fst (last g)))
     \<and> cb_showDocument u = (\<exists>item\<in>set g. tagged item)
     \<and> currentCaptureType s' =
         (if filter tagged g = [] then currentCaptureType s
          else capture_type_of (last (filter tagged g)))"
proof -
  let ?g = "group_by_spec (script_lines (secs ! currentSectionIndex s)) (currentLineIndex s)"
  have g: "collectGroupedLines s = Inr ?g"
    using assms by (simp add: collectGroupedLines_def collect_loop_spec)
  have ne: "?g \<noteq> []"
    using assms(4) by (subst group_by_spec_unfold) simp_all
  obtain s' where s': "speakGroup s = (None, s')"
    and sp: "speech s' = Some \<lparr>utt_text = substitutePlaceholders
                                  (join ''. '' (map (\<lambda>item. line_text (fst item)) ?g)),
          cb_lastLineIndex = snd (last ?g),
          cb_isAutoTerminate = (section_auto_terminate (sections (scriptData s) ! currentSectionIndex s)
                                \<or> auto_terminate (fst (last ?g))),
          cb_isCaptureMode = capture_mode (fst (last ?g)),
          cb_showDocument = fst (scan_documents ?g (False, None, currentCaptureType s))\<rparr>"
    and ct: "currentCaptureType s' = snd (snd (scan_documents ?g (False, None, currentCaptureType s)))"
    using speakGroup_result [OF g ne] by blast
  have "playNextLine s = (None, s')"
    using playNextLine_speak [OF assms] s' by simp
  then show ?thesis
    using sp ct assms(2) by (simp add: scan_documents_show scan_documents_type)
qed

theorem playNextLine_unit_flags_witness:
  "isAutoPlaying ((ready (group_script (Some ''customer_shows_pan'')))\<lparr>isAutoPlaying := True\<rparr>)
   \<and> (\<exists>u s'. playNextLine ((ready (group_script (Some ''customer_shows_pan'')))\<lparr>isAutoPlaying := True\<rparr>)
               = (None, s')
        \<and> speech s' = Some u \<and> cb_isCaptureMode u \<and> cb_lastLineIndex u = 1
        \<and> \<not> cb_isAutoTerminate u \<and> cb_showDocument u \<and> currentCaptureType s' = Some ''pan'')"
  using playNextLine_unit_flags [of "(ready (group_script (Some ''customer_shows_pan'')))\<lparr>isAutoPlaying := True\<rparr>"
      "sections (group_script (Some ''customer_shows_pan''))"]
  by (simp add: ready_def initial_def group_script_def plain_line_def group_by_spec_def
      tagged_def capture_type_of_def)

section \<open>The shape of playNextLine\<close>

lemma seek_Some:
  "seek secs i j = Some (i', j') \<Longrightarrow>
     i' < length secs \<and> j' < length (script_lines (secs ! i'))
     \<and> ((i' = i \<and> j' = j) \<or> (i < i' \<and> j' = 0))"
proof (induction secs i j rule: seek.induct)
  case (1 secs i j)
  show ?case
  proof (cases "i < length secs \<and> \<not> j < length (script_lines (secs ! i))")
    case True
    then have "seek secs (i + 1) 0 = Some (i', j')"
      using "1.prems" by (subst (asm) seek.simps) simp
    then show ?thesis using "1.IH" True by fastforce
  next
    case False
    then show ?thesis
      using "1.prems" by (subst (asm) seek.simps) (auto split: if_splits)
  qed
qed

lemma playNextLine_seek:
  assumes "isAutoPlaying s" and "scriptData s = Script secs"
    and "currentSectionIndex s < length secs"
  shows "playNextLine s =
     (case seek secs (currentSectionIndex s) (currentLineIndex s) of
        None \<Rightarrow> (None, finish (length secs) s)
      | Some (i, j) \<Rightarrow> speakGroup (s\<lparr>currentSectionIndex := i, currentLineIndex := j\<rparr>))"
  using assms
proof (induction "length secs - currentSectionIndex s" arbitrary: s)
  case 0
  then show ?case by simp
next
  case (Suc n)
  let ?i = "currentSectionIndex s" and ?j = "currentLineIndex s"
  show ?case
  proof (cases "?j < length (script_lines (secs ! ?i))")
    case True
    then have "seek secs ?i ?j = Some (?i, ?j)"
      using Suc.prems by (subst seek.simps) simp
    moreover have "playNextLine s = speakGroup s"
      using True Suc.prems by (subst playNextLine.simps) simp
    ultimately show ?thesis by simp
  next
    case False
    show ?thesis
    proof (cases "length secs \<le> ?i + 1")
      case True
      then have "seek secs ?i ?j = None"
        using False Suc.prems by (subst seek.simps, subst seek.simps) simp
      moreover have "length secs = ?i + 1"
        using True Suc.prems by simp
      moreover have "playNextLine s = (None, finish (?i + 1) s)"
        using True False Suc.prems by (subst playNextLine.simps) (simp add: finish_def)
      ultimately show ?thesis by simp
    next
      case more: False
      let ?s1 = "s\<lparr>currentSectionIndex := ?i + 1, currentLineIndex := 0\<rparr>"
      have "playNextLine s = playNextLine ?s1"
        using more False Suc.prems by (subst playNextLine.simps) simp
      moreover have "seek secs ?i ?j = seek secs (?i + 1) 0"
        using False Suc.prems by (subst seek.simps) simp
      moreover have "playNextLine ?s1 =
        (case seek secs (currentSectionIndex ?s1) (currentLineIndex ?s1) of
           None \<Rightarrow> (None, finish (length secs) ?s1)
         | Some (i, j) \<Rightarrow> speakGroup (?s1\<lparr>currentSectionIndex := i, currentLineIndex := j\<rparr>))"
        using Suc.hyps(2) more Suc.prems by (intro Suc.hyps(1)) simp_all
      ultimately show ?thesis by (simp add: finish_def split: option.split)
    qed
  qed
qed

lemma speakGroup_frame:
  "isRecording (snd (speakGroup s)) = isRecording s
   \<and> mediaRecorder (snd (speakGroup s)) = mediaRecorder s
   \<and> scriptData (snd (speakGroup s)) = scriptData s
   \<and> isAutoPlaying (snd (speakGroup s)) = isAutoPlaying s
   \<and> cursor (snd (speakGroup s)) = cursor s
   \<and> recorder_stops (snd (speakGroup s)) = recorder_stops s
   \<and> stops_pending (snd (speakGroup s)) = stops_pending s
   \<and> finalized (snd (speakGroup s)) = finalized s
   \<and> start_btn_disabled (dom (snd (speakGroup s))) = start_btn_disabled (dom s)"
  by (simp add: speakGroup_def Let_def speakText_def cancelSpeech_def hideAllOverlays_def
      cursor_def split: sum.split option.split)

lemma finish_cursor: "cursor (finish n s) = (n, 0)"
  by (simp add: finish_def stopRecording_def cancelSpeech_def hideAllOverlays_def
      saveCapturedImages_def cursor_def Let_def split: option.split)

lemma finish_clean:
  assumes "isRecording s" and "mediaRecorder s \<noteq> None" and "speech s = None"
  shows "\<not> isAutoPlaying (finish n s) \<and> \<not> isRecording (finish n s)
   \<and> speech (finish n s) = None \<and> cancelled (finish n s) = cancelled s
   \<and> mediaRecorder (finish n s) = Some RecorderInactive
   \<and> recorder_stops (finish n s) = recorder_stops s + 1
   \<and> stops_pending (finish n s) = stops_pending s + 1
   \<and> finalized (finish n s) = finalized s
   \<and> narrated (finish n s) = narrated s \<and> spoken (finish n s) = spoken s
   \<and> scriptData (finish n s) = scriptData s
   \<and> start_btn_disabled (dom (finish n s)) = start_btn_disabled (dom s)
   \<and> \<not> video_overlay (dom (finish n s)) \<and> \<not> capture_overlay (dom (finish n s))"
  using assms
  by (simp add: finish_def stopRecording_def cancelSpeech_def hideAllOverlays_def
      saveCapturedImages_def Let_def)


lemma playNextLine_idle:
  "\<not> isAutoPlaying s \<or> scriptData s = Null \<Longrightarrow> playNextLine s = (None, s)"
  by (subst playNextLine.simps) auto

lemma playNextLine_TypeError:
  "isAutoPlaying s \<Longrightarrow>
   scriptData s = NoSections \<or>
     (scriptData s \<noteq> Null \<and> \<not> currentSectionIndex s < length (sections (scriptData s))) \<Longrightarrow>
   playNextLine s = (Some TypeError, s)"
  by (subst playNextLine.simps) auto


lemma speakGroup_at:
  assumes "scriptData s = Script secs" and "i < length secs"
    and "j < length (script_lines (secs ! i))" and "speech s = None"
  shows "\<exists>s' u. speakGroup (s\<lparr>currentSectionIndex := i, currentLineIndex := j\<rparr>) = (None, s')
     \<and> speech s' = Some u \<and> j \<le> cb_lastLineIndex u
     \<and> cancelled s' = cancelled s
     \<and> \<not> video_overlay (dom s') \<and> \<not> capture_overlay (dom s')"
proof -
  let ?s = "s\<lparr>currentSectionIndex := i, currentLineIndex := j\<rparr>"
  let ?g = "group_by_spec (script_lines (secs ! i)) j"
  have g: "collectGroupedLines ?s = Inr ?g"
    using assms by (simp add: collectGroupedLines_def collect_loop_spec)
  have ne: "?g \<noteq> []"
    using assms(3) by (subst group_by_spec_unfold) simp_all
  have "snd (last ?g) = last (map snd ?g)"
    using ne by (simp add: last_map)
  also have "\<dots> = j + length ?g - 1"
    using ne by (subst group_by_spec_snd) (simp del: upt_Suc add: last_upt)
  finally have last: "snd (last ?g) = j + length ?g - 1" .
  have "j \<le> j + length ?g - 1" using ne by (cases ?g) simp_all
  then show ?thesis
    using g ne last assms(1,4)
    by (simp add: speakGroup_def Let_def speakText_def cancelSpeech_def hideAllOverlays_def)
qed

section \<open>What every reachable state satisfies\<close>


text \<open>
  \<open>playNextLine\<close> keeps the invariant when nothing is queued; the cursor it is given need
  not be the one of the state before the handler ran.
\<close>

lemma playNextLine_page_inv:
  assumes "start_btn_disabled (dom s)" and "speech s = None"
    and "isAutoPlaying s \<longrightarrow> isRecording s"
    and "isRecording s \<longrightarrow>
           mediaRecorder s = Some RecorderRecording \<and> cancelled s = [] \<and> recorder_stops s = 0"
    and "\<not> isRecording s \<longrightarrow> recorder_stops s = 1"
    and "recorder_stops s = stops_pending s + length (finalized s)"
    and "case cancelled s of [] \<Rightarrow> True | u # us \<Rightarrow> us = [] \<and> \<not> isAutoPlaying s"
    and "isAutoPlaying s \<or> (case cancelled s of [] \<Rightarrow> True
                               | u # us \<Rightarrow> currentLineIndex s \<le> cb_lastLineIndex u)"
  shows "page_inv (snd (playNextLine s))"
proof -
  have quiet: "page_inv s"
    if "\<not> isAutoPlaying s \<or> cancelled s = []"
    using that assms by (auto simp: page_inv_def split: list.splits)
  consider (idle) "\<not> isAutoPlaying s \<or> scriptData s = Null"
    | (err) "isAutoPlaying s" "scriptData s = NoSections \<or>
        (scriptData s \<noteq> Null \<and> \<not> currentSectionIndex s < length (sections (scriptData s)))"
    | (live) "isAutoPlaying s" "currentSectionIndex s < length (sections (scriptData s))"
        "scriptData s = Script (sections (scriptData s))"
    by (cases "scriptData s") auto
  then show ?thesis
  proof cases
    case idle
    then have "playNextLine s = (None, s)" by (rule playNextLine_idle)
    moreover have "\<not> isAutoPlaying s \<or> cancelled s = []" using assms(3,4) by auto
    ultimately show ?thesis using quiet by simp
  next
    case err
    then have "playNextLine s = (Some TypeError, s)" by (rule playNextLine_TypeError)
    moreover have "cancelled s = []" using err(1) assms(3,4) by auto
    ultimately show ?thesis using quiet by simp
  next
    case live
    let ?secs = "sections (scriptData s)"
    have rec: "isRecording s" "mediaRecorder s \<noteq> None" "cancelled s = []" "recorder_stops s = 0"
      "mediaRecorder s = Some RecorderRecording"
      using live(1) assms(3,4) by auto
    note eq = playNextLine_seek [OF live(1) live(3) live(2)]
    show ?thesis
    proof (cases "seek ?secs (currentSectionIndex s) (currentLineIndex s)")
      case None
      then have "playNextLine s = (None, finish (length ?secs) s)"
        using eq by simp
      then show ?thesis
        using finish_clean [OF rec(1,2) assms(2), of "length ?secs"] finish_cursor [of "length ?secs" s]
          assms(1,6) rec(3,4)
        by (simp add: page_inv_def)
    next
      case (Some p)
      obtain i j where p: "p = (i, j)" by (cases p)
      let ?s1 = "s\<lparr>currentSectionIndex := i, currentLineIndex := j\<rparr>"
      have pos: "i < length ?secs" "j < length (script_lines (?secs ! i))"
        using seek_Some Some p by blast+
      obtain s' u where sp: "speakGroup ?s1 = (None, s')" "speech s' = Some u"
        "j \<le> cb_lastLineIndex u" "cancelled s' = cancelled s"
        "\<not> video_overlay (dom s')" "\<not> capture_overlay (dom s')"
        using speakGroup_at [OF live(3) pos assms(2)] by blast
      have "playNextLine s = (None, s')"
        using eq Some p sp(1) by simp
      moreover have nn: "scriptData s \<noteq> Null" "scriptData s \<noteq> NoSections"
        using live(3) by (metis script_data.distinct(1,2,3,4,5,6))+
      moreover have "page_inv s'"
        using speakGroup_frame [of ?s1] sp assms(1,6) live(1) rec pos nn
        by (simp add: page_inv_def cursor_def)
      ultimately show ?thesis by simp
    qed
  qed
qed

lemma page_invD:
  assumes "page_inv s"
  shows "\<not> start_btn_disabled (dom s) \<Longrightarrow>
           \<not> isRecording s \<and> \<not> isAutoPlaying s \<and> speech s = None \<and> cancelled s = []
           \<and> cursor s = (0, 0) \<and> recorder_stops s = 0"
    and "isAutoPlaying s \<Longrightarrow> isRecording s"
    and "isRecording s \<Longrightarrow>
           mediaRecorder s = Some RecorderRecording \<and> cancelled s = [] \<and> recorder_stops s = 0
           \<and> start_btn_disabled (dom s)"
    and "start_btn_disabled (dom s) \<Longrightarrow> \<not> isRecording s \<Longrightarrow> recorder_stops s = 1"
    and "recorder_stops s = stops_pending s + length (finalized s)"
    and "speech s = Some u \<Longrightarrow>
           isAutoPlaying s \<and> scriptData s \<noteq> Null \<and> scriptData s \<noteq> NoSections
           \<and> currentSectionIndex s < length (sections (scriptData s))
           \<and> currentLineIndex s \<le> cb_lastLineIndex u
           \<and> \<not> video_overlay (dom s) \<and> \<not> capture_overlay (dom s)"
    and "cancelled s = u # us \<Longrightarrow>
           us = [] \<and> speech s = None \<and> currentLineIndex s \<le> cb_lastLineIndex u
           \<and> \<not> isRecording s \<and> \<not> isAutoPlaying s \<and> start_btn_disabled (dom s)"
  using assms by (auto simp: page_inv_def)

lemma page_inv_alerts: "page_inv (s\<lparr>alerts := a\<rparr>) = page_inv s"
  by (simp add: page_inv_def cursor_def split: option.split list.split)

lemma startRecording_unfold:
  "stream s \<Longrightarrow>
   startRecording None s =
     (let r = playNextLine (s\<lparr>recordedChunks := [], capturedImages := [],
                mediaRecorder := Some RecorderRecording, isRecording := True,
                dom := (dom s)\<lparr>start_btn_disabled := True, stop_btn_disabled := False\<rparr>,
                isAutoPlaying := True, currentSectionIndex := 0, currentLineIndex := 0\<rparr>)
      in if fst r = None then snd r
         else (snd r)\<lparr>alerts := alerts (snd r) @ [''Could not start recording: '']\<rparr>)"
  by (simp add: startRecording_def Let_def split: prod.split option.split)

lemma startRecording_page_inv:
  assumes "page_inv s" and "\<not> start_btn_disabled (dom s)"
  shows "page_inv (startRecording failure s)"
proof -
  note pre = page_invD(1) [OF assms] page_invD(5) [OF assms(1)]
  show ?thesis
  proof (cases "stream s \<and> failure = None")
    case False
    then show ?thesis
      using assms pre
      by (cases failure; cases "the failure")
        (auto simp: startRecording_def page_inv_def cursor_def Let_def)
  next
    case True
    let ?s4 = "s\<lparr>recordedChunks := [], capturedImages := [],
               mediaRecorder := Some RecorderRecording, isRecording := True,
               dom := (dom s)\<lparr>start_btn_disabled := True, stop_btn_disabled := False\<rparr>,
               isAutoPlaying := True, currentSectionIndex := 0, currentLineIndex := 0\<rparr>"
    have "page_inv (snd (playNextLine ?s4))"
      using pre by (intro playNextLine_page_inv) simp_all
    moreover have f: "failure = None" "stream s"
      using True by simp_all
    ultimately show ?thesis
      unfolding f(1) startRecording_unfold [OF f(2)] Let_def
      by (simp only: page_inv_alerts if_split) simp
  qed
qed

lemma stopRecording_page_inv:
  assumes "page_inv s"
  shows "page_inv (stopRecording s)"
proof (cases "mediaRecorder s \<noteq> None \<and> isRecording s")
  case False
  then show ?thesis using assms by (auto simp: stopRecording_def)
next
  case True
  note rec = page_invD(3) [OF assms conjunct2 [OF True]] page_invD(5) [OF assms]
  show ?thesis
  proof (cases "speech s")
    case None
    then show ?thesis
      using True rec
      by (simp add: stopRecording_def cancelSpeech_def hideAllOverlays_def saveCapturedImages_def
          Let_def page_inv_def cursor_def)
  next
    case (Some u)
    then show ?thesis
      using True rec page_invD(6) [OF assms Some]
      by (simp add: stopRecording_def cancelSpeech_def hideAllOverlays_def saveCapturedImages_def
          Let_def page_inv_def cursor_def)
  qed
qed

lemma page_inv_frame:
  assumes "start_btn_disabled (dom s') = start_btn_disabled (dom s)"
    and "video_overlay (dom s') = video_overlay (dom s)"
    and "capture_overlay (dom s') = capture_overlay (dom s)"
    and "isRecording s' = isRecording s" and "isAutoPlaying s' = isAutoPlaying s"
    and "speech s' = speech s" and "cancelled s' = cancelled s"
    and "currentSectionIndex s' = currentSectionIndex s"
    and "currentLineIndex s' = currentLineIndex s"
    and "recorder_stops s' = recorder_stops s" and "stops_pending s' = stops_pending s"
    and "finalized s' = finalized s" and "mediaRecorder s' = mediaRecorder s"
    and "scriptData s' = scriptData s"
  shows "page_inv s' = page_inv s"
  unfolding page_inv_def cursor_def assms by simp

lemma advance_page_inv:
  assumes "page_inv s" and "isAutoPlaying s" and "speech s = None"
  shows "page_inv (snd (playNextLine
           ((hideAllOverlays s)\<lparr>currentLineIndex := currentLineIndex (hideAllOverlays s) + 1\<rparr>)))"
proof -
  note rec = page_invD(3) [OF assms(1) page_invD(2) [OF assms(1,2)]] page_invD(5) [OF assms(1)]
  show ?thesis
    using assms(2,3) rec page_invD(2) [OF assms(1,2)]
    by (intro playNextLine_page_inv) (simp_all add: hideAllOverlays_def)
qed

lemma callback_page_inv:
  assumes "page_inv s" and "speech s = None"
    and "isAutoPlaying s \<and> cancelled s = [] \<or>
         \<not> isAutoPlaying s \<and> start_btn_disabled (dom s) \<and> cancelled s = []"
  shows "page_inv (snd (speakCallback u s))"
proof (cases "cb_isAutoTerminate u")
  case True
  have "page_inv (snd (playNextLine (s\<lparr>currentLineIndex := cb_lastLineIndex u + 1\<rparr>)))"
  proof (cases "isAutoPlaying s")
    case True
    note rec = page_invD(3) [OF assms(1) page_invD(2) [OF assms(1) True]] page_invD(5) [OF assms(1)]
    show ?thesis
      using True rec assms(2) page_invD(2) [OF assms(1) True]
      by (intro playNextLine_page_inv) simp_all
  next
    case False
    then have "playNextLine (s\<lparr>currentLineIndex := cb_lastLineIndex u + 1\<rparr>)
        = (None, s\<lparr>currentLineIndex := cb_lastLineIndex u + 1\<rparr>)"
      by (intro playNextLine_idle) simp
    then show ?thesis
      using assms False by (auto simp: page_inv_def cursor_def)
  qed
  then show ?thesis
    using True by (simp add: speakCallback_def Let_def)
next
  case False
  then show ?thesis
    using assms by (auto simp: speakCallback_def Let_def page_inv_def cursor_def)
qed

lemma step_page_inv:
  assumes "page_inv s"
  shows "page_inv (step e s)"
proof (cases e)
  case StartClick
  then show ?thesis using assms by (simp add: step_def startRecording_page_inv)
next
  case (StartClickFailing f)
  then show ?thesis using assms by (simp add: step_def startRecording_page_inv)
next
  case StopClick
  then show ?thesis using assms by (simp add: step_def stopRecording_page_inv)
next
  case NextClick
  show ?thesis
  proof (cases "video_overlay (dom s) \<and> isAutoPlaying s")
    case False
    then show ?thesis using assms NextClick by (auto simp: step_def handleNextQuestion_def)
  next
    case True
    then have "speech s = None"
      using page_invD(6) [OF assms] by (cases "speech s") auto
    then show ?thesis
      using True NextClick advance_page_inv [OF assms]
      by (simp add: step_def handleNextQuestion_def Let_def)
  qed
next
  case (CaptureClick now imageData)
  have "page_inv (captureImage now imageData s) = page_inv s"
    by (rule page_inv_frame) (simp_all add: captureImage_def)
  then show ?thesis
    using assms CaptureClick by (simp add: step_def)
next
  case RetakeClick
  have "page_inv (retakeImage s) = page_inv s"
    by (rule page_inv_frame) (simp_all add: retakeImage_def Let_def split: option.split)
  then show ?thesis
    using assms RetakeClick by (simp add: step_def)
next
  case CaptureNextClick
  show ?thesis
  proof (cases "capture_overlay (dom s) \<and> capture_next_btn (dom s) \<and> isAutoPlaying s")
    case False
    then show ?thesis
      using assms CaptureNextClick by (auto simp: step_def handleCaptureNext_def)
  next
    case True
    then have "speech s = None"
      using page_invD(6) [OF assms] by (cases "speech s") auto
    then show ?thesis
      using True CaptureNextClick advance_page_inv [OF assms]
      by (simp add: step_def handleCaptureNext_def Let_def)
  qed
next
  case SpeechDone
  show ?thesis
  proof (cases "speech s")
    case None
    then show ?thesis using assms SpeechDone by (simp add: step_def)
  next
    case (Some u)
    note q = page_invD(6) [OF assms Some]
    note rec = page_invD(3) [OF assms page_invD(2) [OF assms conjunct1 [OF q]]]
    have "page_inv (s\<lparr>speech := None\<rparr>)"
      using assms by (auto simp: page_inv_def cursor_def split: list.splits)
    then have "page_inv (snd (speakCallback u (s\<lparr>speech := None\<rparr>)))"
      using q rec by (intro callback_page_inv) simp_all
    then show ?thesis
      using Some SpeechDone by (simp add: step_def)
  qed
next
  case CancelledDone
  show ?thesis
  proof (cases "cancelled s")
    case Nil
    then show ?thesis using assms CancelledDone by (simp add: step_def)
  next
    case (Cons u us)
    note q = page_invD(7) [OF assms Cons]
    have "page_inv (s\<lparr>cancelled := us\<rparr>)"
      using assms q by (auto simp: page_inv_def cursor_def split: option.splits)
    then have "page_inv (snd (speakCallback u (s\<lparr>cancelled := us\<rparr>)))"
      using q by (intro callback_page_inv) simp_all
    then show ?thesis
      using Cons CancelledDone by (simp add: step_def)
  qed
next
  case (DataAvailable c)
  have "page_inv (s\<lparr>recordedChunks := recordedChunks s @ [c]\<rparr>) = page_inv s"
    by (rule page_inv_frame) simp_all
  then show ?thesis
    using assms DataAvailable by (simp add: step_def)
next
  case RecorderStopped
  then show ?thesis
    using assms by (auto simp: step_def page_inv_def cursor_def split: option.splits list.splits)
qed


lemma run_page_inv: "page_inv s \<Longrightarrow> page_inv (run es s)"
  by (induction es arbitrary: s) (simp_all add: step_page_inv)

lemma loaded_page_inv: "page_inv (loaded d b)"
  by (simp add: loaded_def initial_def page_inv_def cursor_def)

lemma reachable_page_inv: "page_inv (run es (loaded d b))"
  by (intro run_page_inv loaded_page_inv)

section \<open>The cursor never moves back\<close>









section \<open>Starting and stopping the recorder\<close>

lemma stopRecording_twice: "stopRecording (stopRecording s) = stopRecording s"
  by (simp add: stopRecording_def cancelSpeech_def hideAllOverlays_def saveCapturedImages_def
      Let_def split: option.split)

lemma stop_click_twice: "step StopClick (step StopClick s) = step StopClick s"
  by (simp add: step_def stopRecording_def cancelSpeech_def hideAllOverlays_def
      saveCapturedImages_def Let_def split: option.split)

lemma stopRecording_artifact:
  assumes "isRecording s" and "mediaRecorder s \<noteq> None"
  shows "recordedChunks (stopRecording s) = recordedChunks s
     \<and> stops_pending (stopRecording s) = stops_pending s + 1
     \<and> finalized (stopRecording s) = finalized s
     \<and> \<not> isRecording (stopRecording s)"
  using assms
  by (simp add: stopRecording_def cancelSpeech_def hideAllOverlays_def saveCapturedImages_def
      Let_def split: option.split)

lemma page_inv_one_artifact: "page_inv s \<Longrightarrow> length (finalized s) \<le> 1"
  by (cases "start_btn_disabled (dom s)"; cases "isRecording s") (auto simp: page_inv_def)

text \<open>
  Claim C5. In every state \<open>s\<close> the loaded page can reach:
  \<^item> while recording, a click on start changes nothing, whether the recorder would start
    or fail: the button is disabled, so the recording and its buffered chunks stay as
    they are;
  \<^item> while not recording, \<open>stopRecording\<close> and a click on stop change nothing;
  \<^item> a second stop right after a first changes nothing;
  \<^item> while recording no artifact has been built yet; after two stops in a row the
    recorder's \<open>stop\<close> event builds the one artifact, the chunks buffered so far, and puts
    it into \<open>videoBlob\<close>; a further \<open>stop\<close> event changes nothing, and whatever events
    follow the two stops, there is never more than one artifact.
\<close>

theorem recording_lifecycle_no_reentry:
  assumes "s = run es (loaded d b)"
  shows "(isRecording s \<longrightarrow> step StartClick s = s \<and> step (StartClickFailing f) s = s)
     \<and> (\<not> isRecording s \<longrightarrow> stopRecording s = s \<and> step StopClick s = s)
     \<and> stopRecording (stopRecording s) = stopRecording s
     \<and> step StopClick (step StopClick s) = step StopClick s
     \<and> (isRecording s \<longrightarrow>
          finalized s = []
          \<and> finalized (step RecorderStopped (stopRecording (stopRecording s))) = [recordedChunks s]
          \<and> videoBlob (step RecorderStopped (stopRecording (stopRecording s)))
              = Some (recordedChunks s)
          \<and> step RecorderStopped (step RecorderStopped (stopRecording (stopRecording s)))
              = step RecorderStopped (stopRecording (stopRecording s))
          \<and> length (finalized (run es' (stopRecording (stopRecording s)))) \<le> 1)"
proof -
  have inv: "page_inv s"
    unfolding assms by (rule reachable_page_inv)
  have start: "step StartClick s = s \<and> step (StartClickFailing f) s = s" if "isRecording s"
    using page_invD(3) [OF inv that] by (simp add: step_def)
  have stop: "stopRecording s = s \<and> step StopClick s = s" if "\<not> isRecording s"
    using that by (simp add: step_def stopRecording_def)
  have art: "finalized s = []
          \<and> finalized (step RecorderStopped (stopRecording (stopRecording s))) = [recordedChunks s]
          \<and> videoBlob (step RecorderStopped (stopRecording (stopRecording s)))
              = Some (recordedChunks s)
          \<and> step RecorderStopped (step RecorderStopped (stopRecording (stopRecording s)))
              = step RecorderStopped (stopRecording (stopRecording s))
          \<and> length (finalized (run es' (stopRecording (stopRecording s)))) \<le> 1"
    if rec: "isRecording s"
  proof -
    have none: "stops_pending s = 0" "finalized s = []" "mediaRecorder s \<noteq> None"
      using page_invD(3) [OF inv rec] page_invD(5) [OF inv] by simp_all
    note st = stopRecording_artifact [OF rec none(3)]
    have "page_inv (run es' (stopRecording s))"
      using inv by (intro run_page_inv stopRecording_page_inv)
    then have "length (finalized (run es' (stopRecording s))) \<le> 1"
      by (rule page_inv_one_artifact)
    then show ?thesis
      using none st by (simp add: stopRecording_twice step_def)
  qed
  show ?thesis
    using start stop art stopRecording_twice [of s] stop_click_twice [of s] by blast
qed

theorem recording_lifecycle_no_reentry_witness:
  "isRecording (run [StartClick, DataAvailable ''abc''] (loaded grouped_script True))
   \<and> recordedChunks (run [StartClick, DataAvailable ''abc''] (loaded grouped_script True)) = [''abc'']
   \<and> step StartClick (run [StartClick, DataAvailable ''abc''] (loaded grouped_script True))
       = run [StartClick, DataAvailable ''abc''] (loaded grouped_script True)
   \<and> videoBlob (step RecorderStopped (stopRecording (stopRecording
         (run [StartClick, DataAvailable ''abc''] (loaded grouped_script True)))))
       = Some (recordedChunks (run [StartClick, DataAvailable ''abc''] (loaded grouped_script True)))
   \<and> \<not> isRecording (run [] (loaded grouped_script True))
   \<and> step StopClick (run [] (loaded grouped_script True)) = run [] (loaded grouped_script True)"
proof -
  have h: "isRecording (run [StartClick, DataAvailable ''abc''] (loaded grouped_script True))"
    "recordedChunks (run [StartClick, DataAvailable ''abc''] (loaded grouped_script True)) = [''abc'']"
    "\<not> isRecording (run [] (loaded grouped_script True))"
    by code_simp+
  note t1 = recording_lifecycle_no_reentry
    [where s = "run [StartClick, DataAvailable ''abc''] (loaded grouped_script True)"
       and es = "[StartClick, DataAvailable ''abc'']" and d = grouped_script and b = True
       and f = StartThrows and es' = "[]", OF refl]
  note t2 = recording_lifecycle_no_reentry
    [where s = "run [] (loaded grouped_script True)"
       and es = "[]" and d = grouped_script and b = True
       and f = StartThrows and es' = "[]", OF refl]
  show ?thesis
    using h t1 t2 by blast
qed

section \<open>A callback after the stop\<close>

text \<open>
  Claim C9. \<open>stopRecording\<close> ends auto-play, cancels the speech and hides the overlays, and
  \<open>playNextLine\<close> and the two next handlers return at once when auto-play is off; the
  callback passed to \<open>speakText\<close> has no such check. A session is stopped while its first
  unit (lines 0 to 2) is being narrated. The stop leaves the line index at 0 and no
  overlay shown; when the error event of the cancelled utterance then runs the callback,
  the line index becomes 2 and the overlay with the next button is shown. (No utterance
  is started.)
\<close>

theorem late_callback_acts_after_stop:
  "cancelled (run [StartClick, StopClick] (ready placeholder_script))
     = [\<lparr>utt_text = ''Dear valued customer. welcome to our bank and our organization. We have 123 Main Street, Mumbai, Maharashtra, 400001 on file'',
         cb_lastLineIndex = 2, cb_isAutoTerminate = False,
         cb_isCaptureMode = False, cb_showDocument = False\<rparr>]
   \<and> \<not> isAutoPlaying (run [StartClick, StopClick] (ready placeholder_script))
   \<and> \<not> isRecording (run [StartClick, StopClick] (ready placeholder_script))
   \<and> currentLineIndex (run [StartClick, StopClick] (ready placeholder_script)) = 0
   \<and> \<not> video_overlay (dom (run [StartClick, StopClick] (ready placeholder_script)))
   \<and> currentLineIndex (run [StartClick, StopClick, CancelledDone] (ready placeholder_script)) = 2
   \<and> video_overlay (dom (run [StartClick, StopClick, CancelledDone] (ready placeholder_script)))
   \<and> \<not> isAutoPlaying (run [StartClick, StopClick, CancelledDone] (ready placeholder_script))
   \<and> speech (run [StartClick, StopClick, CancelledDone] (ready placeholder_script)) = None
   \<and> narrated (run [StartClick, StopClick, CancelledDone] (ready placeholder_script))
       = [(0, [0, 1, 2])]"
  by code_simp

section \<open>Traversal of the whole script\<close>

lemma rest_exhausted:
  "i < length secs \<Longrightarrow> length (script_lines (secs ! i)) \<le> j \<Longrightarrow>
     rest secs i j = (if Suc i < length secs then rest secs (Suc i) 0 else [])"
  by (simp add: rest_def section_positions_def upt_conv_Cons del: upt_Suc)

lemma rest_seek:
  "i < length secs \<Longrightarrow>
     rest secs i j = (case seek secs i j of None \<Rightarrow> [] | Some (i', j') \<Rightarrow> rest secs i' j')"
proof (induction secs i j rule: seek.induct)
  case (1 secs i j)
  show ?case
  proof (cases "j < length (script_lines (secs ! i))")
    case True
    then show ?thesis using "1.prems" by (subst seek.simps) simp
  next
    case False
    show ?thesis
    proof (cases "Suc i < length secs")
      case True
      then have "rest secs (i + 1) 0 =
          (case seek secs (i + 1) 0 of None \<Rightarrow> [] | Some (i', j') \<Rightarrow> rest secs i' j')"
        using "1.IH" "1.prems" False by simp
      moreover have "seek secs i j = seek secs (i + 1) 0"
        using False "1.prems" by (subst seek.simps) simp
      ultimately show ?thesis
        using rest_exhausted [of i secs j] False True "1.prems" by simp
    next
      case last: False
      then have "seek secs i j = None"
        using False "1.prems" by (subst seek.simps, subst seek.simps) simp
      then show ?thesis
        using rest_exhausted [of i secs j] False last "1.prems" by simp
    qed
  qed
qed

lemma rest_split:
  assumes "j + k \<le> length (script_lines (secs ! i))"
  shows "rest secs i j = map (Pair i) [j ..< j + k] @ rest secs i (j + k)"
proof -
  obtain d where d: "length (script_lines (secs ! i)) = (j + k) + d"
    using assms le_Suc_ex by blast
  have "[j ..< (j + k) + d] = [j ..< j + k] @ [j + k ..< (j + k) + d]"
    by (rule upt_add_eq_append) simp
  then show ?thesis
    by (simp add: rest_def d)
qed

lemma all_positions_rest: "secs \<noteq> [] \<Longrightarrow> all_positions secs = rest secs 0 0"
  by (cases secs) (simp_all add: all_positions_def rest_def section_positions_def upt_conv_Cons
      del: upt_Suc)

lemma length_all_positions: "length (all_positions secs) = total_lines secs"
proof -
  have "map (\<lambda>i. length (script_lines (secs ! i))) [0 ..< length secs]
        = map (\<lambda>sec. length (script_lines sec)) secs"
    by (rule nth_equalityI) simp_all
  then show ?thesis
    by (simp add: all_positions_def total_lines_def section_positions_def length_concat
        comp_def)
qed

lemma distinct_indexed_concat:
  "distinct xs \<Longrightarrow> (\<And>i. distinct (f i)) \<Longrightarrow>
     distinct (concat (map (\<lambda>i. map (Pair i) (f i)) xs))"
proof (induction xs)
  case Nil
  then show ?case by simp
next
  case (Cons x xs)
  have "set (map (Pair x) (f x)) \<inter> set (concat (map (\<lambda>i. map (Pair i) (f i)) xs)) = {}"
    using Cons.prems(1) by auto
  moreover have "distinct (map (Pair x) (f x))"
    using Cons.prems(2) by (simp add: distinct_map inj_on_def)
  ultimately show ?case
    using Cons by simp
qed

lemma distinct_all_positions: "distinct (all_positions secs)"
  unfolding all_positions_def section_positions_def
  by (rule distinct_indexed_concat) simp_all

lemma group_last_in_section:
  assumes "j < length ls"
  shows "fst (last (group_by_spec ls j)) \<in> set ls"
proof -
  let ?g = "group_by_spec ls j"
  have ne: "?g \<noteq> []"
    using assms by (subst group_by_spec_unfold) simp_all
  then have "fst (last ?g) = last (map fst ?g)"
    by (simp add: last_map)
  also have "\<dots> \<in> set (map fst ?g)"
    using ne by (intro last_in_set) simp
  also have "set (map fst ?g) \<subseteq> set ls"
    by (subst group_by_spec_fst) (meson in_set_dropD in_set_takeD subsetI)
  finally show ?thesis .
qed

lemma cooperate_quiet:
  "speech s = None \<Longrightarrow> \<not> video_overlay (dom s) \<Longrightarrow> \<not> capture_overlay (dom s) \<Longrightarrow>
     cooperate n s = s"
  by (cases n) (simp_all add: cooperate.simps)

lemma join_by_spec: "join ''. '' ts = unit_text_by_spec ts"
proof (induction "''. ''" ts rule: join.induct)
  case 1
  then show ?case by (simp add: unit_text_by_spec_def)
next
  case (2 x)
  then show ?case by (simp add: unit_text_by_spec_def)
next
  case (3 x y ys)
  then show ?case by (simp add: unit_text_by_spec_def)
qed

lemma group_item:
  assumes "item \<in> set (group_by_spec ls j)"
  shows "fst item = ls ! snd item"
proof -
  let ?n = "Suc (length (takeWhile group_with_next (drop j ls)))"
  obtain k where k: "k < length (take ?n (drop j ls))" "k < length [j ..< j + ?n]"
    "item = (take ?n (drop j ls) ! k, [j ..< j + ?n] ! k)"
    using assms unfolding group_by_spec_def Let_def in_set_zip by (cases item) auto
  then have "k < length ls - j" and "k < ?n" by simp_all
  then have "j + k < length ls" by linarith
  then show ?thesis
    using k(3) \<open>k < ?n\<close> by (simp del: upt_Suc)
qed

lemma group_texts:
  "map (\<lambda>item. line_text (fst item)) (group_by_spec ls j)
     = map (\<lambda>i. line_text (ls ! i)) (map snd (group_by_spec ls j))"
  using group_item by (auto simp: comp_def)

lemma group_is_group:
  assumes "j < length (script_lines (secs ! i))"
  shows "is_group secs (i, map snd (group_by_spec (script_lines (secs ! i)) j))"
proof -
  let ?g = "group_by_spec (script_lines (secs ! i)) j"
  have ne: "?g \<noteq> []"
    using assms by (subst group_by_spec_unfold) simp_all
  then have "hd (map snd ?g) = j"
    by (subst group_by_spec_snd) (simp del: upt_Suc)
  then show ?thesis
    using ne by (simp add: is_group_def)
qed

text \<open>
  One round of a followed session: the unit at the cursor is spoken, its narration
  completes, the buttons it shows are pressed (at most three events in all), and
  \<open>playNextLine\<close> is called with the cursor behind the unit.
\<close>

lemma unit_round:
  assumes "isAutoPlaying s" and "isRecording s" and "mediaRecorder s \<noteq> None"
    and "scriptData s = Script secs" and "currentSectionIndex s < length secs"
    and "currentLineIndex s < length (script_lines (secs ! currentSectionIndex s))"
    and "\<not> section_auto_terminate (secs ! currentSectionIndex s)"
    and "\<not> auto_terminate (fst (last (group_by_spec (script_lines (secs ! currentSectionIndex s))
                                        (currentLineIndex s))))"
    and "speech s = None"
  shows "\<exists>k t. k \<le> 3 \<and> fst (speakGroup s) = None
     \<and> (\<forall>m. cooperate (k + m) (snd (speakGroup s)) = cooperate m (snd (playNextLine t)))
     \<and> isAutoPlaying t \<and> isRecording t \<and> mediaRecorder t \<noteq> None
     \<and> scriptData t = Script secs \<and> speech t = None \<and> cancelled t = cancelled s
     \<and> currentSectionIndex t = currentSectionIndex s
     \<and> currentLineIndex t = currentLineIndex s
          + length (group_by_spec (script_lines (secs ! currentSectionIndex s)) (currentLineIndex s))
     \<and> narrated t = narrated s @ [(currentSectionIndex s,
          map snd (group_by_spec (script_lines (secs ! currentSectionIndex s)) (currentLineIndex s)))]
     \<and> spoken t = spoken s @ [spoken_text secs (currentSectionIndex s,
          map snd (group_by_spec (script_lines (secs ! currentSectionIndex s)) (currentLineIndex s)))]
     \<and> recorder_stops t = recorder_stops s"
proof -
  let ?i = "currentSectionIndex s" and ?j = "currentLineIndex s"
  let ?g = "group_by_spec (script_lines (secs ! ?i)) ?j"
  let ?N = "snd (speakGroup s)"
  have g: "collectGroupedLines s = Inr ?g"
    using assms by (simp add: collectGroupedLines_def collect_loop_spec)
  have ne: "?g \<noteq> []"
    using assms(6) by (subst group_by_spec_unfold) simp_all
  have "snd (last ?g) = last (map snd ?g)"
    using ne by (simp add: last_map)
  also have "\<dots> = ?j + length ?g - 1"
    using ne by (subst group_by_spec_snd) (simp del: upt_Suc add: last_upt)
  finally have last: "snd (last ?g) = ?j + length ?g - 1" .
  have pos: "0 < length ?g" using ne by simp
  have spk: "substitutePlaceholders (join ''. '' (map (\<lambda>item. line_text (fst item)) ?g))
      = spoken_text secs (?i, map snd ?g)"
    by (simp add: spoken_text_def join_by_spec group_texts)
  obtain u where N: "fst (speakGroup s) = None" "speech ?N = Some u"
    "cb_lastLineIndex u = ?j + length ?g - 1" "\<not> cb_isAutoTerminate u"
    "isAutoPlaying ?N" "isRecording ?N" "mediaRecorder ?N = mediaRecorder s"
    "scriptData ?N = Script secs" "currentSectionIndex ?N = ?i" "cancelled ?N = cancelled s"
    "narrated ?N = narrated s @ [(?i, map snd ?g)]"
    "spoken ?N = spoken s @ [spoken_text secs (?i, map snd ?g)]"
    "recorder_stops ?N = recorder_stops s"
    "\<not> video_overlay (dom ?N)" "\<not> capture_overlay (dom ?N)"
    using g ne last assms spk
    by (simp add: speakGroup_def Let_def speakText_def cancelSpeech_def hideAllOverlays_def)
  let ?W = "step SpeechDone ?N"
  have W: "speech ?W = None" "isAutoPlaying ?W" "isRecording ?W"
    "mediaRecorder ?W = mediaRecorder s" "scriptData ?W = Script secs"
    "currentSectionIndex ?W = ?i" "currentLineIndex ?W = ?j + length ?g - 1"
    "cancelled ?W = cancelled s" "narrated ?W = narrated s @ [(?i, map snd ?g)]"
    "spoken ?W = spoken s @ [spoken_text secs (?i, map snd ?g)]"
    "recorder_stops ?W = recorder_stops s"
    using N by (simp_all add: step_def speakCallback_def Let_def)
  have first: "cooperate (Suc m) ?N = cooperate m ?W" for m
    using N(2) by (subst cooperate.simps) simp
  show ?thesis
  proof (cases "cb_isCaptureMode u")
    case False
    then have ov: "video_overlay (dom ?W)"
      using N by (simp add: step_def speakCallback_def Let_def)
    let ?t = "(hideAllOverlays ?W)\<lparr>currentLineIndex := currentLineIndex (hideAllOverlays ?W) + 1\<rparr>"
    have click: "step NextClick ?W = snd (playNextLine ?t)"
      using W(2) ov by (simp add: step_def handleNextQuestion_def Let_def)
    have "cooperate (2 + m) ?N = cooperate m (snd (playNextLine ?t))" for m
    proof -
      have "2 + m = Suc (Suc m)" by simp
      then have "cooperate (2 + m) ?N = cooperate (Suc m) ?W"
        using first [of "Suc m"] by (simp only:)
      also have "\<dots> = cooperate m (step NextClick ?W)"
        using W(1) ov by (subst cooperate.simps) simp
      finally show ?thesis using click by simp
    qed
    moreover have "isAutoPlaying ?t" "isRecording ?t" "mediaRecorder ?t \<noteq> None"
      "scriptData ?t = Script secs" "speech ?t = None" "cancelled ?t = cancelled s"
      "currentSectionIndex ?t = ?i" "currentLineIndex ?t = ?j + length ?g"
      "narrated ?t = narrated s @ [(?i, map snd ?g)]"
      "spoken ?t = spoken s @ [spoken_text secs (?i, map snd ?g)]"
      "recorder_stops ?t = recorder_stops s"
      using W assms(3) pos by (simp_all add: hideAllOverlays_def)
    moreover have "(2::nat) \<le> 3" by simp
    ultimately show ?thesis
      using N(1) by blast
  next
    case True
    then have ov: "\<not> video_overlay (dom ?W)" "capture_overlay (dom ?W)" "capture_btn (dom ?W)"
      using N by (simp_all add: step_def speakCallback_def Let_def)
    let ?C = "step (CaptureClick 0 []) ?W"
    have C: "speech ?C = None" "isAutoPlaying ?C" "isRecording ?C"
      "mediaRecorder ?C = mediaRecorder s" "scriptData ?C = Script secs"
      "currentSectionIndex ?C = ?i" "currentLineIndex ?C = ?j + length ?g - 1"
      "cancelled ?C = cancelled s" "narrated ?C = narrated s @ [(?i, map snd ?g)]"
      "spoken ?C = spoken s @ [spoken_text secs (?i, map snd ?g)]"
      "recorder_stops ?C = recorder_stops s"
      "\<not> video_overlay (dom ?C)" "capture_overlay (dom ?C)" "\<not> capture_btn (dom ?C)"
      "capture_next_btn (dom ?C)"
      using W ov by (simp_all add: step_def [of "CaptureClick 0 []"] captureImage_def)
    let ?t = "(hideAllOverlays ?C)\<lparr>currentLineIndex := currentLineIndex (hideAllOverlays ?C) + 1\<rparr>"
    have click: "step CaptureNextClick ?C = snd (playNextLine ?t)"
      using C(2,13,15) by (simp add: step_def [of CaptureNextClick] handleCaptureNext_def Let_def)
    have "cooperate (3 + m) ?N = cooperate m (snd (playNextLine ?t))" for m
    proof -
      have "3 + m = Suc (Suc (Suc m))" by simp
      then have "cooperate (3 + m) ?N = cooperate (Suc (Suc m)) ?W"
        using first [of "Suc (Suc m)"] by (simp only:)
      also have "\<dots> = cooperate (Suc m) ?C"
        using W(1) ov by (subst cooperate.simps) simp
      also have "\<dots> = cooperate m (step CaptureNextClick ?C)"
        using C(1,12,13,14,15) by (subst cooperate.simps) simp
      finally show ?thesis using click by simp
    qed
    moreover have "isAutoPlaying ?t" "isRecording ?t" "mediaRecorder ?t \<noteq> None"
      "scriptData ?t = Script secs" "speech ?t = None" "cancelled ?t = cancelled s"
      "currentSectionIndex ?t = ?i" "currentLineIndex ?t = ?j + length ?g"
      "narrated ?t = narrated s @ [(?i, map snd ?g)]"
      "spoken ?t = spoken s @ [spoken_text secs (?i, map snd ?g)]"
      "recorder_stops ?t = recorder_stops s"
      using C(1-11) assms(3) pos by (simp_all add: hideAllOverlays_def)
    moreover have "(3::nat) \<le> 3" by simp
    ultimately show ?thesis
      using N(1) by blast
  qed
qed

lemma traverse:
  assumes "isAutoPlaying s" and "isRecording s" and "mediaRecorder s \<noteq> None"
    and "scriptData s = Script secs" and "currentSectionIndex s < length secs"
    and "no_auto_terminate secs" and "speech s = None"
    and "3 * length (rest secs (currentSectionIndex s) (currentLineIndex s)) \<le> n"
  shows "\<exists>us. fst (playNextLine s) = None
     \<and> narrated (cooperate n (snd (playNextLine s))) = narrated s @ us
     \<and> positions us = rest secs (currentSectionIndex s) (currentLineIndex s)
     \<and> list_all (is_group secs) us
     \<and> spoken (cooperate n (snd (playNextLine s))) = spoken s @ map (spoken_text secs) us
     \<and> \<not> isAutoPlaying (cooperate n (snd (playNextLine s)))
     \<and> \<not> isRecording (cooperate n (snd (playNextLine s)))
     \<and> speech (cooperate n (snd (playNextLine s))) = None
     \<and> cancelled (cooperate n (snd (playNextLine s))) = cancelled s
     \<and> recorder_stops (cooperate n (snd (playNextLine s))) = recorder_stops s + 1
     \<and> cursor (cooperate n (snd (playNextLine s))) = (length secs, 0)"
  using assms
proof (induction "length (rest secs (currentSectionIndex s) (currentLineIndex s))"
    arbitrary: s n rule: less_induct)
  case less
  note eq = playNextLine_seek [OF less.prems(1) less.prems(4) less.prems(5)]
  note rs = rest_seek [OF less.prems(5), of "currentLineIndex s"]
  show ?case
  proof (cases "seek secs (currentSectionIndex s) (currentLineIndex s)")
    case None
    let ?F = "finish (length secs) s"
    note fc = finish_clean [OF less.prems(2,3,7), of "length secs"]
    have "playNextLine s = (None, ?F)" using eq None by simp
    moreover have "cooperate n ?F = ?F"
      using fc by (intro cooperate_quiet) simp_all
    moreover have "rest secs (currentSectionIndex s) (currentLineIndex s) = []"
      using rs None by simp
    ultimately have "fst (playNextLine s) = None
     \<and> narrated (cooperate n (snd (playNextLine s))) = narrated s @ []
     \<and> positions [] = rest secs (currentSectionIndex s) (currentLineIndex s)
     \<and> list_all (is_group secs) []
     \<and> spoken (cooperate n (snd (playNextLine s))) = spoken s @ map (spoken_text secs) []
     \<and> \<not> isAutoPlaying (cooperate n (snd (playNextLine s)))
     \<and> \<not> isRecording (cooperate n (snd (playNextLine s)))
     \<and> speech (cooperate n (snd (playNextLine s))) = None
     \<and> cancelled (cooperate n (snd (playNextLine s))) = cancelled s
     \<and> recorder_stops (cooperate n (snd (playNextLine s))) = recorder_stops s + 1
     \<and> cursor (cooperate n (snd (playNextLine s))) = (length secs, 0)"
      using fc finish_cursor [of "length secs" s] by (simp add: positions_def)
    then show ?thesis by (rule exI)
  next
    case (Some p)
    obtain i j where p: "p = (i, j)" by (cases p)
    let ?s1 = "s\<lparr>currentSectionIndex := i, currentLineIndex := j\<rparr>"
    let ?ls = "script_lines (secs ! i)"
    let ?g = "group_by_spec ?ls j"
    have pos: "i < length secs" "j < length ?ls"
      using seek_Some Some p by blast+
    have play: "playNextLine s = speakGroup ?s1"
      using eq Some p by simp
    have r1: "rest secs (currentSectionIndex s) (currentLineIndex s) = rest secs i j"
      using rs Some p by simp
    have sec: "secs ! i \<in> set secs" using pos(1) by simp
    have flags: "\<not> section_auto_terminate (secs ! i)" "\<not> auto_terminate (fst (last ?g))"
      using less.prems(6) sec group_last_in_section [OF pos(2)]
      by (auto simp: no_auto_terminate_def)
    have len: "0 < length ?g" "j + length ?g \<le> length ?ls"
      using pos(2) by (simp_all add: group_by_spec_length)
    have r2: "rest secs i j = map (Pair i) (map snd ?g) @ rest secs i (j + length ?g)"
      using rest_split [OF len(2)] by (simp add: group_by_spec_snd)
    have lr: "length (rest secs (currentSectionIndex s) (currentLineIndex s))
        = length ?g + length (rest secs i (j + length ?g))"
      unfolding r1 by (subst r2) simp
    have "\<exists>k t. k \<le> 3 \<and> fst (speakGroup ?s1) = None
      \<and> (\<forall>m. cooperate (k + m) (snd (speakGroup ?s1)) = cooperate m (snd (playNextLine t)))
      \<and> isAutoPlaying t \<and> isRecording t \<and> mediaRecorder t \<noteq> None \<and> scriptData t = Script secs
      \<and> speech t = None \<and> cancelled t = cancelled s
      \<and> currentSectionIndex t = i \<and> currentLineIndex t = j + length ?g
      \<and> narrated t = narrated s @ [(i, map snd ?g)]
      \<and> spoken t = spoken s @ [spoken_text secs (i, map snd ?g)]
      \<and> recorder_stops t = recorder_stops s"
      using unit_round [of ?s1 secs] less.prems(1,2,3,4,7) pos flags by simp
    then obtain k t where t: "k \<le> 3" "fst (speakGroup ?s1) = None"
      "\<And>m. cooperate (k + m) (snd (speakGroup ?s1)) = cooperate m (snd (playNextLine t))"
      "isAutoPlaying t" "isRecording t" "mediaRecorder t \<noteq> None" "scriptData t = Script secs"
      "speech t = None" "cancelled t = cancelled s"
      "currentSectionIndex t = i" "currentLineIndex t = j + length ?g"
      "narrated t = narrated s @ [(i, map snd ?g)]"
      "spoken t = spoken s @ [spoken_text secs (i, map snd ?g)]"
      "recorder_stops t = recorder_stops s"
      by blast
    define m where "m = n - k"
    have n: "n = k + m" and fuel: "3 * length (rest secs (currentSectionIndex t) (currentLineIndex t)) \<le> m"
      using less.prems(8) len(1) lr t(1) unfolding m_def t(10,11) by linarith+
    have smaller: "length (rest secs (currentSectionIndex t) (currentLineIndex t))
        < length (rest secs (currentSectionIndex s) (currentLineIndex s))"
      unfolding t(10,11) using len(1) lr by linarith
    have inside: "currentSectionIndex t < length secs"
      using pos(1) t(10) by simp
    obtain us where all: "fst (playNextLine t) = None
     \<and> narrated (cooperate m (snd (playNextLine t))) = narrated t @ us
     \<and> positions us = rest secs (currentSectionIndex t) (currentLineIndex t)
     \<and> list_all (is_group secs) us
     \<and> spoken (cooperate m (snd (playNextLine t))) = spoken t @ map (spoken_text secs) us
     \<and> \<not> isAutoPlaying (cooperate m (snd (playNextLine t)))
     \<and> \<not> isRecording (cooperate m (snd (playNextLine t)))
     \<and> speech (cooperate m (snd (playNextLine t))) = None
     \<and> cancelled (cooperate m (snd (playNextLine t))) = cancelled t
     \<and> recorder_stops (cooperate m (snd (playNextLine t))) = recorder_stops t + 1
     \<and> cursor (cooperate m (snd (playNextLine t))) = (length secs, 0)"
      using less.hyps [OF smaller t(4,5,6,7) inside less.prems(6) t(8) fuel] by (rule exE)
    have ih: "narrated (cooperate m (snd (playNextLine t))) = narrated t @ us"
      "positions us = rest secs (currentSectionIndex t) (currentLineIndex t)"
      "list_all (is_group secs) us"
      "spoken (cooperate m (snd (playNextLine t))) = spoken t @ map (spoken_text secs) us"
      "\<not> isAutoPlaying (cooperate m (snd (playNextLine t)))"
      "\<not> isRecording (cooperate m (snd (playNextLine t)))"
      "speech (cooperate m (snd (playNextLine t))) = None"
      "cancelled (cooperate m (snd (playNextLine t))) = cancelled t"
      "recorder_stops (cooperate m (snd (playNextLine t))) = recorder_stops t + 1"
      "cursor (cooperate m (snd (playNextLine t))) = (length secs, 0)"
      using all by simp_all
    have same: "cooperate n (snd (playNextLine s)) = cooperate m (snd (playNextLine t))"
      unfolding play n by (rule t(3))
    let ?us = "(i, map snd ?g) # us"
    have a: "positions ?us = rest secs (currentSectionIndex s) (currentLineIndex s)"
      unfolding r1 using r2 ih(2) t(10,11) by (simp add: positions_def)
    have b: "list_all (is_group secs) ?us"
      using ih(3) group_is_group [OF pos(2)] by simp
    have c: "narrated (cooperate n (snd (playNextLine s))) = narrated s @ ?us"
      unfolding same ih(1) t(12) by simp
    have d: "spoken (cooperate n (snd (playNextLine s))) = spoken s @ map (spoken_text secs) ?us"
      unfolding same ih(4) t(13) by simp
    have e: "fst (playNextLine s) = None"
      using play t(2) by simp
    have f: "\<not> isAutoPlaying (cooperate n (snd (playNextLine s)))"
      "\<not> isRecording (cooperate n (snd (playNextLine s)))"
      "speech (cooperate n (snd (playNextLine s))) = None"
      "cancelled (cooperate n (snd (playNextLine s))) = cancelled s"
      "recorder_stops (cooperate n (snd (playNextLine s))) = recorder_stops s + 1"
      "cursor (cooperate n (snd (playNextLine s))) = (length secs, 0)"
      unfolding same using ih(5-10) t(9,14) by simp_all
    show ?thesis
      by (rule exI [of _ ?us]) (intro conjI e c a b d f)
  qed
qed

text \<open>
  Claim C8. \<open>playNextLine\<close> reads the lines of the current section before it looks
  whether a section is left, so a script without sections is a case it misses. Such a
  script carries no auto-terminate flag and has no line to narrate, yet its session does
  not end: \<open>playNextLine\<close> raises on the missing first section, the start shows "Could
  not start recording", and the recording and auto-play stay on, with nothing queued and
  no button shown for the user to press.
\<close>

theorem script_without_sections_never_ends:
  "total_lines [] = 0
   \<and> isRecording (cooperate 10 (step StartClick (loaded (Script []) True)))
   \<and> isAutoPlaying (cooperate 10 (step StartClick (loaded (Script []) True)))
   \<and> recorder_stops (cooperate 10 (step StartClick (loaded (Script []) True))) = 0
   \<and> narrated (cooperate 10 (step StartClick (loaded (Script []) True))) = []"
  by code_simp

text \<open>
  With at least one section the traversal is complete. A script with no auto-terminate
  flag is started on the loaded page with a webcam stream, the recorder starts, and the
  user follows the session. Given enough events (three times the number of lines
  suffices), the session ends by itself, with auto-play and recording off, the recorder
  stopped once and no utterance ever cancelled. The units narrated on the way are groups
  of their sections; they cover the positions of the script in order, every line once,
  which makes as many lines as the sections hold together; and what is spoken for each
  unit is the text of its lines, joined by the separator, with the placeholders
  substituted. When the cursor is at or past the end of a section, \<open>playNextLine\<close> goes
  on with the first line of the next section, and ends the session when there is none.
\<close>

theorem followed_session_narrates_every_line_once:
  assumes "secs \<noteq> []" and "no_auto_terminate secs" and "3 * total_lines secs \<le> n"
  shows "\<not> isAutoPlaying (cooperate n (step StartClick (loaded (Script secs) True)))
     \<and> \<not> isRecording (cooperate n (step StartClick (loaded (Script secs) True)))
     \<and> speech (cooperate n (step StartClick (loaded (Script secs) True))) = None
     \<and> cancelled (cooperate n (step StartClick (loaded (Script secs) True))) = []
     \<and> recorder_stops (cooperate n (step StartClick (loaded (Script secs) True))) = 1
     \<and> cursor (cooperate n (step StartClick (loaded (Script secs) True))) = (length secs, 0)
     \<and> positions (narrated (cooperate n (step StartClick (loaded (Script secs) True))))
         = all_positions secs
     \<and> length (all_positions secs) = total_lines secs
     \<and> distinct (all_positions secs)
     \<and> list_all (is_group secs) (narrated (cooperate n (step StartClick (loaded (Script secs) True))))
     \<and> spoken (cooperate n (step StartClick (loaded (Script secs) True)))
         = map (spoken_text secs) (narrated (cooperate n (step StartClick (loaded (Script secs) True))))
     \<and> (isAutoPlaying t \<and> scriptData t = Script secs \<and> currentSectionIndex t < length secs
          \<and> length (script_lines (secs ! currentSectionIndex t)) \<le> currentLineIndex t \<longrightarrow>
          (if currentSectionIndex t + 1 < length secs
           then playNextLine t = playNextLine (t\<lparr>currentSectionIndex := currentSectionIndex t + 1,
                                                  currentLineIndex := 0\<rparr>)
           else playNextLine t = (None, finish (currentSectionIndex t + 1) t)
                \<and> \<not> isAutoPlaying (finish (currentSectionIndex t + 1) t)))"
proof -
  let ?s0 = "loaded (Script secs) True"
  let ?s4 = "?s0\<lparr>recordedChunks := [], capturedImages := [],
               mediaRecorder := Some RecorderRecording, isRecording := True,
               dom := (dom ?s0)\<lparr>start_btn_disabled := True, stop_btn_disabled := False\<rparr>,
               isAutoPlaying := True, currentSectionIndex := 0, currentLineIndex := 0\<rparr>"
  have s0: "stream ?s0" "\<not> start_btn_disabled (dom ?s0)" "narrated ?s0 = []" "spoken ?s0 = []"
    "cancelled ?s0 = []" "recorder_stops ?s0 = 0" "speech ?s0 = None"
    "scriptData ?s0 = Script secs"
    by (simp_all add: loaded_def initial_def)
  have fuel: "3 * length (rest secs (currentSectionIndex ?s4) (currentLineIndex ?s4)) \<le> n"
    using assms(1,3) by (simp add: all_positions_rest [symmetric] length_all_positions)
  have "\<exists>us. fst (playNextLine ?s4) = None
     \<and> narrated (cooperate n (snd (playNextLine ?s4))) = narrated ?s4 @ us
     \<and> positions us = rest secs (currentSectionIndex ?s4) (currentLineIndex ?s4)
     \<and> list_all (is_group secs) us
     \<and> spoken (cooperate n (snd (playNextLine ?s4))) = spoken ?s4 @ map (spoken_text secs) us
     \<and> \<not> isAutoPlaying (cooperate n (snd (playNextLine ?s4)))
     \<and> \<not> isRecording (cooperate n (snd (playNextLine ?s4)))
     \<and> speech (cooperate n (snd (playNextLine ?s4))) = None
     \<and> cancelled (cooperate n (snd (playNextLine ?s4))) = cancelled ?s4
     \<and> recorder_stops (cooperate n (snd (playNextLine ?s4))) = recorder_stops ?s4 + 1
     \<and> cursor (cooperate n (snd (playNextLine ?s4))) = (length secs, 0)"
    using assms(1) s0 by (intro traverse [OF _ _ _ _ _ assms(2) _ fuel]) simp_all
  then obtain us where all: "fst (playNextLine ?s4) = None
     \<and> narrated (cooperate n (snd (playNextLine ?s4))) = narrated ?s4 @ us
     \<and> positions us = rest secs (currentSectionIndex ?s4) (currentLineIndex ?s4)
     \<and> list_all (is_group secs) us
     \<and> spoken (cooperate n (snd (playNextLine ?s4))) = spoken ?s4 @ map (spoken_text secs) us
     \<and> \<not> isAutoPlaying (cooperate n (snd (playNextLine ?s4)))
     \<and> \<not> isRecording (cooperate n (snd (playNextLine ?s4)))
     \<and> speech (cooperate n (snd (playNextLine ?s4))) = None
     \<and> cancelled (cooperate n (snd (playNextLine ?s4))) = cancelled ?s4
     \<and> recorder_stops (cooperate n (snd (playNextLine ?s4))) = recorder_stops ?s4 + 1
     \<and> cursor (cooperate n (snd (playNextLine ?s4))) = (length secs, 0)"
    by (rule exE)
  have tr: "fst (playNextLine ?s4) = None"
    "narrated (cooperate n (snd (playNextLine ?s4))) = us"
    "positions us = all_positions secs"
    "list_all (is_group secs) us"
    "spoken (cooperate n (snd (playNextLine ?s4))) = map (spoken_text secs) us"
    "\<not> isAutoPlaying (cooperate n (snd (playNextLine ?s4)))"
    "\<not> isRecording (cooperate n (snd (playNextLine ?s4)))"
    "speech (cooperate n (snd (playNextLine ?s4))) = None"
    "cancelled (cooperate n (snd (playNextLine ?s4))) = []"
    "recorder_stops (cooperate n (snd (playNextLine ?s4))) = 1"
    "cursor (cooperate n (snd (playNextLine ?s4))) = (length secs, 0)"
    using all s0(3-6) assms(1) by (simp_all add: all_positions_rest)
  have start: "step StartClick ?s0 = snd (playNextLine ?s4)"
    using tr(1) s0(2) unfolding step_def startRecording_unfold [OF s0(1)] Let_def by simp
  have main: "\<not> isAutoPlaying (cooperate n (step StartClick ?s0))"
    "\<not> isRecording (cooperate n (step StartClick ?s0))"
    "speech (cooperate n (step StartClick ?s0)) = None"
    "cancelled (cooperate n (step StartClick ?s0)) = []"
    "recorder_stops (cooperate n (step StartClick ?s0)) = 1"
    "cursor (cooperate n (step StartClick ?s0)) = (length secs, 0)"
    "positions (narrated (cooperate n (step StartClick ?s0))) = all_positions secs"
    "list_all (is_group secs) (narrated (cooperate n (step StartClick ?s0)))"
    "spoken (cooperate n (step StartClick ?s0))
       = map (spoken_text secs) (narrated (cooperate n (step StartClick ?s0)))"
    unfolding start using tr(2-11) by simp_all
  have exhausted: "(if currentSectionIndex t + 1 < length secs
           then playNextLine t = playNextLine (t\<lparr>currentSectionIndex := currentSectionIndex t + 1,
                                                  currentLineIndex := 0\<rparr>)
           else playNextLine t = (None, finish (currentSectionIndex t + 1) t)
                \<and> \<not> isAutoPlaying (finish (currentSectionIndex t + 1) t))"
    if "isAutoPlaying t" "scriptData t = Script secs" "currentSectionIndex t < length secs"
      "length (script_lines (secs ! currentSectionIndex t)) \<le> currentLineIndex t"
  proof -
    have "\<not> isAutoPlaying (finish (currentSectionIndex t + 1) t)"
      by (simp add: finish_def stopRecording_def cancelSpeech_def hideAllOverlays_def
          saveCapturedImages_def Let_def split: option.split)
    then show ?thesis
      using that
      by (subst playNextLine.simps, subst (3) playNextLine.simps) (simp add: finish_def)
  qed
  then have ex: "isAutoPlaying t \<and> scriptData t = Script secs \<and> currentSectionIndex t < length secs
          \<and> length (script_lines (secs ! currentSectionIndex t)) \<le> currentLineIndex t \<longrightarrow>
          (if currentSectionIndex t + 1 < length secs
           then playNextLine t = playNextLine (t\<lparr>currentSectionIndex := currentSectionIndex t + 1,
                                                  currentLineIndex := 0\<rparr>)
           else playNextLine t = (None, finish (currentSectionIndex t + 1) t)
                \<and> \<not> isAutoPlaying (finish (currentSectionIndex t + 1) t))"
    by (intro impI) (elim conjE)
  note l = length_all_positions [of secs] and d = distinct_all_positions [of secs]
  show ?thesis
    by (intro conjI main l d ex)
qed

theorem followed_session_narrates_every_line_once_witness:
  "two_sections_script \<noteq> [] \<and> no_auto_terminate two_sections_script
   \<and> 3 * total_lines two_sections_script \<le> 15
   \<and> \<not> isAutoPlaying (cooperate 15 (step StartClick (loaded (Script two_sections_script) True)))
   \<and> recorder_stops (cooperate 15 (step StartClick (loaded (Script two_sections_script) True))) = 1
   \<and> positions (narrated (cooperate 15 (step StartClick (loaded (Script two_sections_script) True))))
       = [(0, 0), (0, 1), (0, 2), (2, 0), (2, 1)]
   \<and> narrated (cooperate 15 (step StartClick (loaded (Script two_sections_script) True)))
       = [(0, [0, 1]), (0, [2]), (2, [0]), (2, [1])]
   \<and> spoken (cooperate 15 (step StartClick (loaded (Script two_sections_script) True)))
       = [''Hello valued customer. Welcome to our bank'', ''Your name please'',
          ''Show your PAN card'', ''Thank you'']
   \<and> capturedImages (cooperate 15 (step StartClick (loaded (Script two_sections_script) True)))
       = [\<lparr>img_type = Some ''pan'', img_timestamp = 0, img_data = []\<rparr>]
   \<and> save_requests (cooperate 15 (step StartClick (loaded (Script two_sections_script) True)))
       = [[\<lparr>img_type = Some ''pan'', img_timestamp = 0, img_data = []\<rparr>]]
   \<and> dom (cooperate 15 (step StartClick (loaded (Script two_sections_script) True)))
       = \<lparr>start_btn_disabled = True, stop_btn_disabled = True, video_overlay = False,
          capture_overlay = False, document_indicator = False, capture_status = False,
          capture_btn = False, retake_btn = True, capture_next_btn = True,
          document_text = Some ''pan''\<rparr>
   \<and> cursor (cooperate 15 (step StartClick (loaded (Script two_sections_script) True))) = (3, 0)
   \<and> length (script_lines (two_sections_script ! 0)) \<le> 3
   \<and> playNextLine ((ready (Script two_sections_script))\<lparr>isAutoPlaying := True, currentLineIndex := 3\<rparr>)
       = playNextLine ((ready (Script two_sections_script))
                         \<lparr>isAutoPlaying := True, currentSectionIndex := 1, currentLineIndex := 0\<rparr>)"
proof -
  have h: "two_sections_script \<noteq> []" "no_auto_terminate two_sections_script"
    "3 * total_lines two_sections_script \<le> 15"
    by (simp_all add: two_sections_script_def no_auto_terminate_def
        total_lines_def plain_line_def pan_capture_line_def)
  have v: "all_positions two_sections_script = [(0, 0), (0, 1), (0, 2), (2, 0), (2, 1)]"
    "length two_sections_script = 3"
    "length (script_lines (two_sections_script ! 0)) = 3"
    "currentSectionIndex (ready (Script two_sections_script)) = 0"
    "scriptData (ready (Script two_sections_script)) = Script two_sections_script"
    by code_simp+
  have tr: "narrated (cooperate 15 (step StartClick (loaded (Script two_sections_script) True)))
       = [(0, [0, 1]), (0, [2]), (2, [0]), (2, [1])]"
    "capturedImages (cooperate 15 (step StartClick (loaded (Script two_sections_script) True)))
       = [\<lparr>img_type = Some ''pan'', img_timestamp = 0, img_data = []\<rparr>]"
    "save_requests (cooperate 15 (step StartClick (loaded (Script two_sections_script) True)))
       = [[\<lparr>img_type = Some ''pan'', img_timestamp = 0, img_data = []\<rparr>]]"
    "dom (cooperate 15 (step StartClick (loaded (Script two_sections_script) True)))
       = \<lparr>start_btn_disabled = True, stop_btn_disabled = True, video_overlay = False,
          capture_overlay = False, document_indicator = False, capture_status = False,
          capture_btn = False, retake_btn = True, capture_next_btn = True,
          document_text = Some ''pan''\<rparr>"
    by code_simp+
  have sp: "map (spoken_text two_sections_script) [(0, [0, 1]), (0, [2]), (2, [0]), (2, [1])]
       = [''Hello valued customer. Welcome to our bank'', ''Your name please'',
          ''Show your PAN card'', ''Thank you'']"
    by code_simp
  show ?thesis
    using h v tr sp followed_session_narrates_every_line_once [OF h,
        of "(ready (Script two_sections_script))\<lparr>isAutoPlaying := True, currentLineIndex := 3\<rparr>"]
    by simp
qed


end
